theory Spec2Isabelle
  imports Complex_Main "HOL-Library.Word" "HOL-Library.Multiset"
begin

section \<open>Strings and values of the host language\<close>

text \<open>
  A string of the backend is a sequence of UTF-16 code units; \<open>length\<close> on it is the
  source's \<open>.length\<close>. Literals of the source are ASCII and are written through \<open>js\<close>.
\<close>

type_synonym jsstring = "16 word list"

definition js :: "string \<Rightarrow> jsstring" where
  "js s = map (\<lambda>c. of_char c) s"

text \<open>
  The code units that \<open>String.prototype.trim\<close> and \<open>parseInt\<close> strip: the language's
  WhiteSpace and LineTerminator productions.
\<close>

definition isWhiteSpace :: "16 word \<Rightarrow> bool" where
  "isWhiteSpace c =
     (c \<in> set [0x9, 0xA, 0xB, 0xC, 0xD, 0x20, 0xA0, 0x1680, 0x2028, 0x2029,
               0x202F, 0x205F, 0x3000, 0xFEFF]
      \<or> (0x2000 \<le> c \<and> c \<le> 0x200A))"

definition trimStart :: "jsstring \<Rightarrow> jsstring" where
  "trimStart s = dropWhile isWhiteSpace s"

definition trimEnd :: "jsstring \<Rightarrow> jsstring" where
  "trimEnd s = rev (dropWhile isWhiteSpace (rev s))"

definition trim :: "jsstring \<Rightarrow> jsstring" where
  "trim s = trimEnd (trimStart s)"

text \<open>
  A value of type \<open>unknown\<close>, as a parsed JSON body can hold it, plus \<open>undefined\<close>.
  No function of the backend inspects the payload of a number or a boolean.
  An object is the list of its own properties.
\<close>

datatype jsval =
    JUndefined
  | JNull
  | JBool bool
  | JNum int
  | JStr jsstring
  | JArr "jsval list"
  | JObj "(jsstring \<times> jsval) list"

text \<open>
  Optional property access \<open>v?.name\<close> for a data property name that no prototype
  defines (\<open>text\<close>, \<open>displayName\<close>): \<open>undefined\<close> on a nullish value, on a primitive
  and on an array, the own property of an object if it has one.
\<close>

fun optField :: "jsval \<Rightarrow> jsstring \<Rightarrow> jsval" where
  "optField (JObj props) name = (case map_of props name of None \<Rightarrow> JUndefined | Some v \<Rightarrow> v)"
| "optField _ name = JUndefined"

section \<open>Constants of the backend\<close>

definition MESSAGE_MAX_LENGTH :: nat where "MESSAGE_MAX_LENGTH = 1000"
definition NAME_MAX_LENGTH :: nat where "NAME_MAX_LENGTH = 64"
definition HISTORY_MAX_LIMIT :: int where "HISTORY_MAX_LIMIT = 200"
definition IDENTITY_COOKIE_NAME :: jsstring where "IDENTITY_COOKIE_NAME = js ''anon_chat_identity''"
definition IDENTITY_MAX_AGE_SECONDS :: nat where "IDENTITY_MAX_AGE_SECONDS = 60 * 60 * 24 * 365"

definition adjectivePool :: "jsstring list" where
  "adjectivePool = map js [''Silent'', ''Swift'', ''Mellow'', ''Curious'', ''Bright'',
                           ''Calm'', ''Clever'', ''Gentle'', ''Brisk'', ''Kind'']"

definition nounPool :: "jsstring list" where
  "nounPool = map js [''River'', ''Panda'', ''Cloud'', ''Falcon'', ''Leaf'',
                      ''Otter'', ''Comet'', ''Maple'', ''Sparrow'', ''Fox'']"

section \<open>Number to string\<close>

text \<open>\<open>Number.prototype.toString\<close> on an integer: its decimal digits, with a sign.\<close>

definition digitChar :: "nat \<Rightarrow> 16 word" where
  "digitChar d = of_nat (48 + d)"

function natDigits :: "nat \<Rightarrow> jsstring" where
  "natDigits n = (if n < 10 then [digitChar n] else natDigits (n div 10) @ [digitChar (n mod 10)])"
  by pat_completeness auto
termination
  by (relation "measure id") auto

declare natDigits.simps [simp del]

definition intToString :: "int \<Rightarrow> jsstring" where
  "intToString i = (if i < 0 then js ''-'' @ natDigits (nat (- i)) else natDigits (nat i))"

text \<open>\<open>s.padStart(n, "0")\<close>.\<close>

definition padStart0 :: "nat \<Rightarrow> jsstring \<Rightarrow> jsstring" where
  "padStart0 n s = replicate (n - length s) (digitChar 0) @ s"

section \<open>The message validator\<close>

text \<open>The validators return \<open>{ok: false, message}\<close> or \<open>{ok: true, value}\<close>.\<close>

datatype validation = Rejected jsstring | Accepted jsstring

fun ok :: "validation \<Rightarrow> bool" where
  "ok (Rejected _) = False"
| "ok (Accepted _) = True"

fun trimAndValidateText :: "jsval \<Rightarrow> validation" where
  "trimAndValidateText (JStr rawText) =
     (let text = trim rawText in
      if length text = 0 then Rejected (js ''text cannot be empty'')
      else if length text > MESSAGE_MAX_LENGTH then
        Rejected (js ''text must be <= '' @ intToString (int MESSAGE_MAX_LENGTH) @ js '' characters'')
      else Accepted text)"
| "trimAndValidateText _ = Rejected (js ''text must be a string'')"

fun trimAndValidateDisplayName :: "jsval \<Rightarrow> jsstring \<Rightarrow> validation" where
  "trimAndValidateDisplayName JUndefined fallbackUsername = Accepted fallbackUsername"
| "trimAndValidateDisplayName JNull fallbackUsername = Accepted fallbackUsername"
| "trimAndValidateDisplayName (JStr rawDisplayName) fallbackUsername =
     (let displayName = trim rawDisplayName in
      if length displayName = 0 then Accepted fallbackUsername
      else if length displayName > NAME_MAX_LENGTH then
        Rejected (js ''displayName must be <= '' @ intToString (int NAME_MAX_LENGTH) @ js '' characters'')
      else Accepted displayName)"
| "trimAndValidateDisplayName _ fallbackUsername = Rejected (js ''displayName must be a string'')"

section \<open>Products of doubles\<close>

text \<open>
  A finite double is the rational number it stands for. \<open>exponentOf x\<close> is the binary
  exponent that the format gives \<open>x\<close>: the greatest \<open>e\<close> from 1023 down to -1022 with
  \<open>2^e \<le> |x|\<close>, and -1022 below that, where the subnormal numbers lie.
\<close>

fun binade :: "nat \<Rightarrow> int \<Rightarrow> rat \<Rightarrow> int" where
  "binade 0 e x = e"
| "binade (Suc fuel) e x = (if 2 powi e \<le> x then e else binade fuel (e - 1) x)"

definition exponentOf :: "rat \<Rightarrow> int" where
  "exponentOf x = binade 2045 1023 \<bar>x\<bar>"

text \<open>The nearest integer, the even one of two that are equally near.\<close>

definition roundHalfEven :: "rat \<Rightarrow> int" where
  "roundHalfEven q =
     (let f = \<lfloor>q\<rfloor>; r = q - of_int f
      in if r < 1 / 2 then f else if 1 / 2 < r then f + 1 else if even f then f else f + 1)"

text \<open>
  The double that an arithmetic operation returns for the exact result \<open>x\<close>: the nearest
  multiple of the unit in the last of the 53 places, ties to even. This is the result for
  \<open>|x|\<close> below \<open>2^1024 - 2^970\<close>, from where on the operation returns an infinity; the
  products below are less than 10000.
\<close>

definition roundToDouble :: "rat \<Rightarrow> rat" where
  "roundToDouble x =
     (let ulp = 2 powi (exponentOf x - 52)
      in of_int (roundHalfEven (x / ulp)) * ulp)"

definition isDouble :: "rat \<Rightarrow> bool" where
  "isDouble x = (roundToDouble x = x)"

text \<open>What \<open>Math.random\<close> returns: a double, at least 0 and less than 1.\<close>

definition isUnitDouble :: "rat \<Rightarrow> bool" where
  "isUnitDouble r = (isDouble r \<and> 0 \<le> r \<and> r < 1)"

text \<open>\<open>Math.floor(r * n)\<close> for a double \<open>r\<close> and a small natural number \<open>n\<close>.\<close>

definition mathFloorTimes :: "rat \<Rightarrow> nat \<Rightarrow> int" where
  "mathFloorTimes r n = \<lfloor>roundToDouble (r * of_nat n)\<rfloor>"

section \<open>Identity resolution\<close>

text \<open>
  \<open>`${pool[i]}`\<close>: an index outside the array reads \<open>undefined\<close>, which the template
  literal renders as the word.
\<close>

definition poolAt :: "jsstring list \<Rightarrow> int \<Rightarrow> jsstring" where
  "poolAt pool i = (if 0 \<le> i \<and> i < int (length pool) then pool ! nat i else js ''undefined'')"

text \<open>
  \<open>generateUsername\<close> draws three times from \<open>Math.random\<close>; \<open>random k\<close> is the
  \<open>k\<close>-th draw. Each product is the product of doubles.
\<close>

definition generateUsername :: "(nat \<Rightarrow> rat) \<Rightarrow> jsstring" where
  "generateUsername random =
     (let adjective = poolAt adjectivePool (mathFloorTimes (random 0) (length adjectivePool));
          noun = poolAt nounPool (mathFloorTimes (random 1) (length nounPool));
          suffix = padStart0 4 (intToString (mathFloorTimes (random 2) 10000))
      in adjective @ js ''-'' @ noun @ js ''-'' @ suffix)"

record cookieOptions =
  path :: jsstring
  httpOnly :: bool
  sameSite :: jsstring
  secure :: bool
  signed :: bool
  maxAge :: nat

text \<open>The result of \<open>request.unsignCookie\<close>: \<open>{valid, value}\<close> with \<open>value: string | null\<close>.\<close>

record unsignResult =
  valid :: bool
  unsignedValue :: "jsstring option"

section \<open>Messages, the store and the channel\<close>

text \<open>A \<open>Date\<close> is its time value in milliseconds; \<open>toISOString\<close> is kept symbolic.\<close>

datatype isoString = ISOString int

definition toISOString :: "int \<Rightarrow> isoString" where
  "toISOString t = ISOString t"

record messageRow =
  row_id :: jsstring
  row_text :: jsstring
  row_username :: jsstring
  row_displayName :: "jsstring option"
  row_createdAt :: int

record messageDTO =
  dto_id :: jsstring
  dto_text :: jsstring
  dto_username :: jsstring
  dto_displayName :: jsstring
  dto_createdAt :: isoString

definition normalizeMessage :: "messageRow \<Rightarrow> messageDTO" where
  "normalizeMessage message =
     \<lparr> dto_id = row_id message,
       dto_text = row_text message,
       dto_username = row_username message,
       dto_displayName = (case row_displayName message of None \<Rightarrow> row_username message | Some d \<Rightarrow> d),
       dto_createdAt = toISOString (row_createdAt message) \<rparr>"

definition getClientKey :: "jsstring \<Rightarrow> jsstring \<Rightarrow> jsstring" where
  "getClientKey ipAddress username = ipAddress @ js '':'' @ username"

text \<open>What a call of the database client does: it throws an error, or it returns.\<close>

datatype 'a dbOutcome = Throws jsstring | Returns 'a

text \<open>
  Everything outside the handlers that one request meets: the configuration, the cookie
  plugin's signature check, the random source, the fresh UUID, and whether the database
  calls succeed (for \<open>create\<close>, with the \<open>createdAt\<close> that the store assigns).
\<close>

record world =
  COOKIE_SECURE :: bool
  unsignCookie :: "jsstring \<Rightarrow> unsignResult"
  mathRandom :: "nat \<Rightarrow> rat"
  randomUUID :: jsstring
  prismaCreate :: "int dbOutcome"
  prismaFindMany :: "unit dbOutcome"

record request =
  cookies :: "jsstring option"
  body :: jsval
  ip :: "jsstring option"
  query_limit :: "jsstring option"

text \<open>
  The observable actions of a handler, in the order it performs them. The response
  itself is returned apart, as the last action.
\<close>

datatype effect =
    SetCookie jsstring jsstring cookieOptions
  | RateLimiterCheck jsstring bool
  | MessageCreate messageRow
  | MessageCreateFailed jsstring
  | Emit jsstring messageDTO
  | LogError jsstring jsstring

datatype payload =
    MessageBody messageDTO
  | ErrorBody jsstring jsstring
  | MessagesBody "messageDTO list"
  | IdentityBody jsstring

record response =
  statusCode :: nat
  sent :: payload

text \<open>
  The process state that the handlers share: the rate limiter's state and the message
  table, in insertion order.
\<close>

record 'rl server =
  limiter :: 'rl
  messages :: "messageRow list"

text \<open>
  The second half of \<open>ensureIdentity\<close>: a fresh username, and the signed cookie that
  binds it.
\<close>

definition mintIdentity :: "world \<Rightarrow> jsstring \<times> effect list" where
  "mintIdentity w =
     (let username = generateUsername (mathRandom w)
      in (username,
          [SetCookie IDENTITY_COOKIE_NAME username
             \<lparr> path = js ''/'', httpOnly = True, sameSite = js ''lax'',
               secure = COOKIE_SECURE w, signed = True,
               maxAge = IDENTITY_MAX_AGE_SECONDS \<rparr>]))"

definition ensureIdentity :: "world \<Rightarrow> request \<Rightarrow> jsstring \<times> effect list" where
  "ensureIdentity w request =
     (case cookies request of
        None \<Rightarrow> mintIdentity w
      | Some signedCookie \<Rightarrow>
          if length signedCookie > 0 then
            (let r = unsignCookie w signedCookie
             in case unsignedValue r of
                  None \<Rightarrow> mintIdentity w
                | Some v \<Rightarrow> if valid r \<and> v \<noteq> [] then (v, []) else mintIdentity w)
          else mintIdentity w)"

section \<open>Reading the history\<close>

text \<open>
  A number as the history handler meets it: the result of \<open>parseInt\<close>. A finite result
  stands for the double nearest to the integer; the handler only compares it with 1 and
  200, which that rounding leaves as they are.
\<close>

datatype jsnumber = NaN | PosInfinity | NegInfinity | Finite int

definition isDigit :: "16 word \<Rightarrow> bool" where
  "isDigit c = (0x30 \<le> c \<and> c \<le> 0x39)"

definition digitValue :: "16 word \<Rightarrow> int" where
  "digitValue c = int (unat c) - 48"

text \<open>
  \<open>Number.parseInt(input, 10)\<close>: leading white space goes, then one sign, then the
  longest run of decimal digits counts; none gives \<open>NaN\<close>. An integer that no double
  reaches (from \<open>2^1024 - 2^970\<close> on) gives an infinity.
\<close>

definition parseInt10 :: "jsstring \<Rightarrow> jsnumber" where
  "parseInt10 input =
     (let s = trimStart input;
          negative = (s \<noteq> [] \<and> hd s = 0x2D);
          s' = (if s \<noteq> [] \<and> (hd s = 0x2B \<or> hd s = 0x2D) then tl s else s);
          z = takeWhile isDigit s'
      in if z = [] then NaN
         else (let mathInt = foldl (\<lambda>a c. 10 * a + digitValue c) 0 z
               in if mathInt \<ge> 2 ^ 1024 - 2 ^ 970
                  then (if negative then NegInfinity else PosInfinity)
                  else Finite (if negative then - mathInt else mathInt)))"

definition isFinite :: "jsnumber \<Rightarrow> bool" where
  "isFinite x = (case x of Finite _ \<Rightarrow> True | _ \<Rightarrow> False)"

definition historyLimit :: "jsstring option \<Rightarrow> int" where
  "historyLimit queryLimit =
     (let rawLimit = parseInt10 (case queryLimit of None \<Rightarrow> intToString HISTORY_MAX_LIMIT | Some l \<Rightarrow> l)
      in case rawLimit of
           Finite n \<Rightarrow> max 1 (min HISTORY_MAX_LIMIT n)
         | _ \<Rightarrow> HISTORY_MAX_LIMIT)"

text \<open>
  \<open>findMany({orderBy: {createdAt: "desc"}, take})\<close> on the table: the rows by falling
  \<open>createdAt\<close> (rows of one instant in the order the table has them), cut after \<open>take\<close>.
\<close>

definition findMany :: "nat \<Rightarrow> messageRow list \<Rightarrow> messageRow list" where
  "findMany n table = take n (sort_key (\<lambda>r. - row_createdAt r) table)"

text \<open>The fallback of \<open>setErrorHandler\<close>, which an exception leaving a handler reaches.\<close>

definition errorHandler :: "jsstring \<Rightarrow> response \<times> effect list" where
  "errorHandler error =
     (\<lparr> statusCode = 500, sent = ErrorBody (js ''server_error'') (js ''Internal server error'') \<rparr>,
      [LogError error (js ''Unhandled request error'')])"

definition getMessages :: "world \<Rightarrow> request \<Rightarrow> 'rl server \<Rightarrow> response \<times> effect list \<times> 'rl server" where
  "getMessages w request st =
     (let idEffects = snd (ensureIdentity w request);
          limit = historyLimit (query_limit request)
      in case prismaFindMany w of
           Throws error \<Rightarrow>
             (fst (errorHandler error), idEffects @ snd (errorHandler error), st)
         | Returns _ \<Rightarrow>
             (let rows = findMany (nat limit) (messages st);
                  msgs = map normalizeMessage (rev rows)
              in (\<lparr> statusCode = 200, sent = MessagesBody msgs \<rparr>, idEffects, st)))"

definition getIdentity :: "world \<Rightarrow> request \<Rightarrow> 'rl server \<Rightarrow> response \<times> effect list \<times> 'rl server" where
  "getIdentity w request st =
     (let (username, idEffects) = ensureIdentity w request
      in (\<lparr> statusCode = 200, sent = IdentityBody username \<rparr>, idEffects, st))"

section \<open>Posting a message\<close>

text \<open>
  The handler of \<open>POST /messages\<close>. The rate limiter is the module \<open>rate-limit\<close>; the
  handler meets it as \<open>check\<close>, which answers for a key and moves the limiter's state.
  The handler's local constants \<open>textResult\<close>, \<open>displayNameResult\<close> and \<open>clientIp\<close> are
  named apart.
\<close>

definition textResult :: "request \<Rightarrow> validation" where
  "textResult request = trimAndValidateText (optField (body request) (js ''text''))"

definition displayNameResult :: "request \<Rightarrow> jsstring \<Rightarrow> validation" where
  "displayNameResult request username =
     trimAndValidateDisplayName (optField (body request) (js ''displayName'')) username"

definition clientIp :: "request \<Rightarrow> jsstring" where
  "clientIp request = (case ip request of None \<Rightarrow> js ''unknown'' | Some a \<Rightarrow> a)"

definition postMessages ::
  "(jsstring \<Rightarrow> 'rl \<Rightarrow> bool \<times> 'rl) \<Rightarrow> world \<Rightarrow> request \<Rightarrow> 'rl server
     \<Rightarrow> response \<times> effect list \<times> 'rl server" where
  "postMessages check w request st =
     (let (username, idEffects) = ensureIdentity w request
      in case textResult request of
           Rejected m \<Rightarrow>
             (\<lparr> statusCode = 400, sent = ErrorBody (js ''validation_error'') m \<rparr>, idEffects, st)
         | Accepted textValue \<Rightarrow>
            (case displayNameResult request username of
               Rejected m \<Rightarrow>
                 (\<lparr> statusCode = 400, sent = ErrorBody (js ''validation_error'') m \<rparr>, idEffects, st)
             | Accepted displayNameValue \<Rightarrow>
                (let key = getClientKey (clientIp request) username;
                     (canProceed, limiter') = check key (limiter st);
                     st1 = st\<lparr> limiter := limiter' \<rparr>;
                     effects1 = idEffects @ [RateLimiterCheck key canProceed]
                 in if \<not> canProceed then
                      (\<lparr> statusCode = 429,
                         sent = ErrorBody (js ''rate_limit_exceeded'') (js ''Too many messages, slow down.'') \<rparr>,
                       effects1, st1)
                    else
                      (case prismaCreate w of
                         Throws error \<Rightarrow>
                           (\<lparr> statusCode = 500,
                              sent = ErrorBody (js ''server_error'') (js ''Could not persist message'') \<rparr>,
                            effects1 @ [MessageCreateFailed error,
                                        LogError error (js ''Could not create message'')],
                            st1)
                       | Returns now \<Rightarrow>
                           (let created = \<lparr> row_id = randomUUID w, row_text = textValue,
                                            row_username = username,
                                            row_displayName = Some displayNameValue,
                                            row_createdAt = now \<rparr>;
                                payload = normalizeMessage created
                            in (\<lparr> statusCode = 201, sent = MessageBody payload \<rparr>,
                                effects1 @ [MessageCreate created, Emit (js ''messages:new'') payload],
                                st1\<lparr> messages := messages st1 @ [created] \<rparr>))))))"




text \<open>Which actions publish on the channel, and which are calls of the store's \<open>create\<close>.\<close>

fun isEmit :: "effect \<Rightarrow> bool" where
  "isEmit (Emit _ _) = True"
| "isEmit _ = False"

fun isStoreWrite :: "effect \<Rightarrow> bool" where
  "isStoreWrite (MessageCreate _) = True"
| "isStoreWrite (MessageCreateFailed _) = True"
| "isStoreWrite _ = False"

fun isRateLimiterCheck :: "effect \<Rightarrow> bool" where
  "isRateLimiterCheck (RateLimiterCheck _ _) = True"
| "isRateLimiterCheck _ = False"


section \<open>The rate limiter\<close>

text \<open>
  Modelled from the spec: the module \<open>rate-limit\<close> is not among the sources. This is the
  spec's RateWindow, the record that the limiter keeps for a key: a count and the start
  of the key's current window, made on the first check of the key.
\<close>

record rateWindow =
  count :: nat
  windowStart :: int

type_synonym limiterState = "jsstring \<rightharpoonup> rateWindow"

text \<open>
  Modelled from the spec: \<open>check\<close> of the limiter that \<open>createRateLimiter\<close> of the module
  \<open>rate-limit\<close> returns, which is not among the sources. The spec gives each key a window
  of duration \<open>W\<close> with a cap \<open>N\<close>: a call in the current window is accepted while fewer
  than \<open>N\<close> were, and rejected from then on; a call once the window has elapsed (at \<open>W\<close>
  or more from its start) resets the counter and starts a new window with itself as the
  first call. \<open>now\<close> is the clock's reading at the call.
\<close>

definition rateLimiter_check ::
  "int \<Rightarrow> nat \<Rightarrow> int \<Rightarrow> jsstring \<Rightarrow> limiterState \<Rightarrow> bool \<times> limiterState" where
  "rateLimiter_check W N now key m =
     (case m key of
        None \<Rightarrow> (True, m(key \<mapsto> \<lparr> count = 1, windowStart = now \<rparr>))
      | Some w \<Rightarrow>
          if now - windowStart w \<ge> W then (True, m(key \<mapsto> \<lparr> count = 1, windowStart = now \<rparr>))
          else if count w < N then (True, m(key \<mapsto> w\<lparr> count := count w + 1 \<rparr>))
          else (False, m))"

text \<open>A run of checks, each with the time it reads and its key, and their answers in order.\<close>

fun checks :: "int \<Rightarrow> nat \<Rightarrow> (int \<times> jsstring) list \<Rightarrow> limiterState \<Rightarrow> bool list \<times> limiterState" where
  "checks W N [] m = ([], m)"
| "checks W N ((now, key) # calls) m =
     (let (b, m') = rateLimiter_check W N now key m;
          (bs, m'') = checks W N calls m'
      in (b # bs, m''))"

section \<open>The shape of a username\<close>

text \<open>
  \<open>Adjective-Noun-DDDD\<close>: an adjective and a noun of the pools and four decimal digits,
  joined by hyphens.
\<close>

definition matchesUsernamePattern :: "jsstring \<Rightarrow> bool" where
  "matchesUsernamePattern u =
     list_ex (\<lambda>a. list_ex (\<lambda>n.
        (let p = a @ js ''-'' @ n @ js ''-''
         in take (length p) u = p \<and> length u = length p + 4 \<and> list_all isDigit (drop (length p) u)))
        nounPool) adjectivePool"

section \<open>Example inputs\<close>

text \<open>
  A cookie plugin that knows one good cookie and one whose signed value is empty, a
  random source with the draws 0.125, 0.5 and 0.0482177734375, and a first request from a
  client without a cookie. \<open>nearestSevenTenths\<close> and \<open>nearest121TenThousandths\<close> are the
  doubles that the literals \<open>0.7\<close> and \<open>0.0121\<close> denote. \<open>exampleJsonParse\<close> is a JSON
  parser cut down to two texts.
\<close>

definition exampleUnsign :: "jsstring \<Rightarrow> unsignResult" where
  "exampleUnsign c =
     (if c = js ''Kind-Fox-0007.good'' then \<lparr> valid = True, unsignedValue = Some (js ''Kind-Fox-0007'') \<rparr>
      else if c = js ''.empty'' then \<lparr> valid = True, unsignedValue = Some [] \<rparr>
      else \<lparr> valid = False, unsignedValue = None \<rparr>)"

definition exampleRandom :: "nat \<Rightarrow> rat" where
  "exampleRandom k = (if k = 0 then 1 / 8 else if k = 1 then 1 / 2 else 395 / 8192)"

definition nearestSevenTenths :: rat where
  "nearestSevenTenths = 3152519739159347 / 4503599627370496"

definition exampleWorld :: world where
  "exampleWorld = \<lparr> COOKIE_SECURE = False, unsignCookie = exampleUnsign, mathRandom = exampleRandom,
       randomUUID = js ''7d1a'', prismaCreate = Returns 1700000000000, prismaFindMany = Returns () \<rparr>"

definition exampleRequest :: request where
  "exampleRequest = \<lparr> cookies = None, body = JObj [(js ''text'', JStr (js '' hello ''))],
       ip = Some (js ''10.0.0.1''), query_limit = None \<rparr>"

definition exampleServer :: "limiterState server" where
  "exampleServer = \<lparr> limiter = Map.empty, messages = [] \<rparr>"

definition exampleKey :: jsstring where
  "exampleKey = js ''10.0.0.1:Swift-Otter-0482''"

definition exampleCheck :: "jsstring \<Rightarrow> limiterState \<Rightarrow> bool \<times> limiterState" where
  "exampleCheck = rateLimiter_check 10000 10 5000"

definition exampleFullServer :: "limiterState server" where
  "exampleFullServer =
     \<lparr> limiter = [exampleKey \<mapsto> \<lparr> count = 10, windowStart = 0 \<rparr>], messages = [] \<rparr>"

definition exampleBlankRequest :: request where
  "exampleBlankRequest = exampleRequest\<lparr> body := JObj [(js ''text'', JStr (js ''  ''))] \<rparr>"

definition exampleDownWorld :: world where
  "exampleDownWorld = exampleWorld\<lparr> prismaCreate := Throws (js ''connection refused'') \<rparr>"


definition nearest121TenThousandths :: rat where
  "nearest121TenThousandths = 54493555491183 / 4503599627370496"

definition exampleRow :: "jsstring \<Rightarrow> int \<Rightarrow> messageRow" where
  "exampleRow i t = \<lparr> row_id = i, row_text = js ''hi'', row_username = js ''Kind-Fox-0007'',
                      row_displayName = None, row_createdAt = t \<rparr>"

definition exampleHistory :: "limiterState server" where
  "exampleHistory = \<lparr> limiter = Map.empty,
      messages = [exampleRow (js ''a'') 30, exampleRow (js ''b'') 10, exampleRow (js ''c'') 20] \<rparr>"

section \<open>Properties of trimming and of number rendering\<close>

lemma trimStart_idem: "trimStart (trimStart s) = trimStart s"
  by (simp add: trimStart_def dropWhile_idem)

lemma trimEnd_idem: "trimEnd (trimEnd s) = trimEnd s"
  by (simp add: trimEnd_def dropWhile_idem)

lemma trimEnd_Nil: "trimEnd [] = []"
  by (simp add: trimEnd_def)

lemma hd_trimStart: "trimStart s \<noteq> [] \<Longrightarrow> \<not> isWhiteSpace (hd (trimStart s))"
  unfolding trimStart_def by (rule hd_dropWhile)

lemma trimEnd_keeps_head:
  "s \<noteq> [] \<Longrightarrow> \<not> isWhiteSpace (hd s) \<Longrightarrow> trimEnd s \<noteq> [] \<and> hd (trimEnd s) = hd s"
proof (induction s rule: rev_induct)
  case Nil
  then show ?case by simp
next
  case (snoc x xs)
  show ?case
  proof (cases xs)
    case Nil
    with snoc.prems show ?thesis by (simp add: trimEnd_def)
  next
    case (Cons y ys)
    with snoc have IH: "trimEnd xs \<noteq> [] \<and> hd (trimEnd xs) = hd xs" by simp
    show ?thesis
    proof (cases "isWhiteSpace x")
      case True
      then have "trimEnd (xs @ [x]) = trimEnd xs" by (simp add: trimEnd_def)
      with IH Cons show ?thesis by simp
    next
      case False
      then have "trimEnd (xs @ [x]) = xs @ [x]" by (simp add: trimEnd_def)
      with Cons show ?thesis by simp
    qed
  qed
qed

lemma trimStart_no_leading: "s \<noteq> [] \<Longrightarrow> \<not> isWhiteSpace (hd s) \<Longrightarrow> trimStart s = s"
  by (cases s) (simp_all add: trimStart_def)

lemma trimStart_trim: "trimStart (trim s) = trim s"
proof (cases "trimStart s = []")
  case True
  then have "trim s = []" by (simp add: trim_def trimEnd_Nil)
  then show ?thesis by (simp add: trimStart_def)
next
  case False
  then have "\<not> isWhiteSpace (hd (trimStart s))" by (rule hd_trimStart)
  with False have "trimEnd (trimStart s) \<noteq> [] \<and> hd (trimEnd (trimStart s)) = hd (trimStart s)"
    by (rule trimEnd_keeps_head)
  with \<open>\<not> isWhiteSpace (hd (trimStart s))\<close> show ?thesis
    by (simp add: trim_def trimStart_no_leading)
qed

lemma trim_idem: "trim (trim s) = trim s"
proof -
  have "trim (trim s) = trimEnd (trimStart (trim s))" by (simp add: trim_def)
  also have "\<dots> = trimEnd (trim s)" by (simp add: trimStart_trim)
  also have "\<dots> = trim s" by (simp add: trim_def trimEnd_idem)
  finally show ?thesis .
qed

lemma trim_outer:
  "trim s = [] \<or> (\<not> isWhiteSpace (hd (trim s)) \<and> \<not> isWhiteSpace (last (trim s)))"
proof (cases "trim s = []")
  case True
  then show ?thesis by simp
next
  case False
  have a: "\<not> isWhiteSpace (hd (trim s))"
    using False hd_trimStart [of "trim s"] by (simp add: trimStart_trim)
  have "rev (trim s) = dropWhile isWhiteSpace (rev (trimStart s))"
    by (simp add: trim_def trimEnd_def)
  moreover from False have "rev (trim s) \<noteq> []" by simp
  ultimately have "\<not> isWhiteSpace (hd (rev (trim s)))"
    using hd_dropWhile [of isWhiteSpace "rev (trimStart s)"] by simp
  with False have "\<not> isWhiteSpace (last (trim s))" by (simp add: hd_rev)
  with a show ?thesis by simp
qed


lemma intToString_1000: "intToString 1000 = js ''1000''"
  by (simp add: intToString_def natDigits.simps digitChar_def js_def)

lemma intToString_64: "intToString 64 = js ''64''"
  by (simp add: intToString_def natDigits.simps digitChar_def js_def)

lemma trim_replicate: "\<not> isWhiteSpace c \<Longrightarrow> trim (replicate n c) = replicate n c"
  by (simp add: trim_def trimStart_def trimEnd_def dropWhile_replicate)

section \<open>The text validator\<close>

text \<open>
  Claim C2. \<open>trimAndValidateText\<close> rejects every value that is not a string, rejects a
  string that trims to the empty string, rejects a string whose trimmed length exceeds
  1000, and otherwise accepts with exactly the trimmed string. So it accepts exactly the
  strings whose trimmed length lies in 1..1000, and an accepted result is already
  trimmed (it neither starts nor ends with white space): validating it again returns it
  unchanged.
\<close>

theorem trimAndValidateText_spec:
  "((\<forall>s. raw \<noteq> JStr s) \<longrightarrow> trimAndValidateText raw = Rejected (js ''text must be a string''))
 \<and> (trim s = [] \<longrightarrow> trimAndValidateText (JStr s) = Rejected (js ''text cannot be empty''))
 \<and> (1000 < length (trim s) \<longrightarrow>
       trimAndValidateText (JStr s) = Rejected (js ''text must be <= 1000 characters''))
 \<and> (1 \<le> length (trim s) \<and> length (trim s) \<le> 1000 \<longrightarrow>
       trimAndValidateText (JStr s) = Accepted (trim s))
 \<and> (ok (trimAndValidateText raw) \<longleftrightarrow>
       (\<exists>t. raw = JStr t \<and> 1 \<le> length (trim t) \<and> length (trim t) \<le> 1000))
 \<and> (trimAndValidateText (JStr s) = Accepted t \<longrightarrow>
       t = trim s \<and> trim t = t \<and> trimAndValidateText (JStr t) = Accepted t
       \<and> \<not> isWhiteSpace (hd t) \<and> \<not> isWhiteSpace (last t))"
proof -
  have a: "(\<forall>s. raw \<noteq> JStr s) \<longrightarrow> trimAndValidateText raw = Rejected (js ''text must be a string'')"
    by (cases raw) simp_all
  have b: "trim s = [] \<longrightarrow> trimAndValidateText (JStr s) = Rejected (js ''text cannot be empty'')"
    by simp
  have c: "1000 < length (trim s) \<longrightarrow>
       trimAndValidateText (JStr s) = Rejected (js ''text must be <= 1000 characters'')"
    using intToString_1000 by (auto simp add: MESSAGE_MAX_LENGTH_def Let_def js_def)
  have d: "1 \<le> length (trim s) \<and> length (trim s) \<le> 1000 \<longrightarrow>
       trimAndValidateText (JStr s) = Accepted (trim s)"
    by (auto simp add: MESSAGE_MAX_LENGTH_def Let_def)
  have e: "ok (trimAndValidateText raw) \<longleftrightarrow>
       (\<exists>t. raw = JStr t \<and> 1 \<le> length (trim t) \<and> length (trim t) \<le> 1000)"
    by (cases raw) (auto simp add: MESSAGE_MAX_LENGTH_def Let_def Suc_le_eq)
  have f: "trimAndValidateText (JStr s) = Accepted t \<longrightarrow>
       t = trim s \<and> trim t = t \<and> trimAndValidateText (JStr t) = Accepted t
       \<and> \<not> isWhiteSpace (hd t) \<and> \<not> isWhiteSpace (last t)"
    using trim_outer [of s]
    by (auto simp add: MESSAGE_MAX_LENGTH_def Let_def trim_idem split: if_splits)
  from a b c d e f show ?thesis by blast
qed

theorem trimAndValidateText_spec_witness:
  "trimAndValidateText (JNum 7) = Rejected (js ''text must be a string'')
 \<and> trimAndValidateText (JStr (js ''   '')) = Rejected (js ''text cannot be empty'')
 \<and> trimAndValidateText (JStr (replicate 1001 0x61)) = Rejected (js ''text must be <= 1000 characters'')
 \<and> trimAndValidateText (JStr (js ''  hello '')) = Accepted (js ''hello'')
 \<and> ok (trimAndValidateText (JStr (js ''  hello '')))
 \<and> trimAndValidateText (JStr (js ''hello'')) = Accepted (js ''hello'')"
proof -
  have t1: "trim (js ''   '') = []" by (simp add: trim_def trimStart_def trimEnd_def js_def isWhiteSpace_def)
  have t2: "trim (replicate 1001 (0x61 :: 16 word)) = replicate 1001 0x61"
    by (rule trim_replicate) (simp add: isWhiteSpace_def)
  have t3: "trim (js ''  hello '') = js ''hello''"
    by (simp add: trim_def trimStart_def trimEnd_def js_def isWhiteSpace_def)
  have t4: "trim (js ''hello'') = js ''hello''"
    by (simp add: trim_def trimStart_def trimEnd_def js_def isWhiteSpace_def)
  have l3: "length (js ''hello'') = 5" by (simp add: js_def)
  have p1: "trimAndValidateText (JNum 7) = Rejected (js ''text must be a string'')"
    using trimAndValidateText_spec [of "JNum 7" "[]" "[]"] by simp
  have p2: "trimAndValidateText (JStr (js ''   '')) = Rejected (js ''text cannot be empty'')"
    using trimAndValidateText_spec [of "JNull" "js ''   ''" "[]"] t1 by simp
  have p3: "trimAndValidateText (JStr (replicate 1001 0x61)) = Rejected (js ''text must be <= 1000 characters'')"
    using trimAndValidateText_spec [of "JNull" "replicate 1001 0x61" "[]"] t2 by simp
  have p4: "trimAndValidateText (JStr (js ''  hello '')) = Accepted (js ''hello'')"
    using trimAndValidateText_spec [of "JNull" "js ''  hello ''" "[]"] t3 l3 by simp
  have p5: "ok (trimAndValidateText (JStr (js ''  hello '')))"
    using trimAndValidateText_spec [of "JStr (js ''  hello '')" "[]" "[]"] t3 l3 by auto
  have p6: "trimAndValidateText (JStr (js ''hello'')) = Accepted (js ''hello'')"
    using trimAndValidateText_spec [of "JNull" "js ''  hello ''" "js ''hello''"] p4 by blast
  from p1 p2 p3 p4 p5 p6 show ?thesis by blast
qed


section \<open>The display-name validator\<close>

text \<open>
  Claim C8. \<open>trimAndValidateDisplayName\<close> returns the fallback, without error, when the
  raw value is absent (\<open>undefined\<close> or \<open>null\<close>, the two values that the function's first
  test takes as absent) or is a string that trims to the empty string; it returns an
  error for every other value that is not a string, and for a string whose trimmed
  length exceeds 64; otherwise it returns exactly the trimmed name. A valid name that is
  already trimmed comes back unchanged.
\<close>

theorem trimAndValidateDisplayName_spec:
  "trimAndValidateDisplayName JUndefined fallback = Accepted fallback
 \<and> trimAndValidateDisplayName JNull fallback = Accepted fallback
 \<and> (trim s = [] \<longrightarrow> trimAndValidateDisplayName (JStr s) fallback = Accepted fallback)
 \<and> (raw \<noteq> JUndefined \<and> raw \<noteq> JNull \<and> (\<forall>t. raw \<noteq> JStr t) \<longrightarrow>
       trimAndValidateDisplayName raw fallback = Rejected (js ''displayName must be a string''))
 \<and> (64 < length (trim s) \<longrightarrow>
       trimAndValidateDisplayName (JStr s) fallback
         = Rejected (js ''displayName must be <= 64 characters''))
 \<and> (1 \<le> length (trim s) \<and> length (trim s) \<le> 64 \<longrightarrow>
       trimAndValidateDisplayName (JStr s) fallback = Accepted (trim s))
 \<and> (trim s = s \<and> 1 \<le> length s \<and> length s \<le> 64 \<longrightarrow>
       trimAndValidateDisplayName (JStr s) fallback = Accepted s)"
proof -
  have a: "raw \<noteq> JUndefined \<and> raw \<noteq> JNull \<and> (\<forall>t. raw \<noteq> JStr t) \<longrightarrow>
       trimAndValidateDisplayName raw fallback = Rejected (js ''displayName must be a string'')"
    by (cases raw) simp_all
  have b: "trim s = [] \<longrightarrow> trimAndValidateDisplayName (JStr s) fallback = Accepted fallback"
    by simp
  have c: "64 < length (trim s) \<longrightarrow>
       trimAndValidateDisplayName (JStr s) fallback
         = Rejected (js ''displayName must be <= 64 characters'')"
    using intToString_64 by (auto simp add: NAME_MAX_LENGTH_def Let_def js_def)
  have d: "1 \<le> length (trim s) \<and> length (trim s) \<le> 64 \<longrightarrow>
       trimAndValidateDisplayName (JStr s) fallback = Accepted (trim s)"
    by (auto simp add: NAME_MAX_LENGTH_def Let_def)
  have e: "trim s = s \<and> 1 \<le> length s \<and> length s \<le> 64 \<longrightarrow>
       trimAndValidateDisplayName (JStr s) fallback = Accepted s"
    using d by auto
  from a b c d e show ?thesis by simp
qed

theorem trimAndValidateDisplayName_spec_witness:
  "trimAndValidateDisplayName (JStr (js '' '')) (js ''Swift-Otter-0482'') = Accepted (js ''Swift-Otter-0482'')
 \<and> trimAndValidateDisplayName (JBool True) (js ''Swift-Otter-0482'')
      = Rejected (js ''displayName must be a string'')
 \<and> trimAndValidateDisplayName (JStr (replicate 65 0x61)) (js ''Swift-Otter-0482'')
      = Rejected (js ''displayName must be <= 64 characters'')
 \<and> trimAndValidateDisplayName (JStr (js '' Ada  '')) (js ''Swift-Otter-0482'') = Accepted (js ''Ada'')
 \<and> trimAndValidateDisplayName (JStr (js ''Ada'')) (js ''Swift-Otter-0482'') = Accepted (js ''Ada'')"
proof -
  let ?fb = "js ''Swift-Otter-0482''"
  have t1: "trim (js '' '') = []"
    by (simp add: trim_def trimStart_def trimEnd_def js_def isWhiteSpace_def)
  have t2: "trim (replicate 65 (0x61 :: 16 word)) = replicate 65 0x61"
    by (rule trim_replicate) (simp add: isWhiteSpace_def)
  have t3: "trim (js '' Ada  '') = js ''Ada''"
    by (simp add: trim_def trimStart_def trimEnd_def js_def isWhiteSpace_def)
  have t4: "trim (js ''Ada'') = js ''Ada''"
    by (simp add: trim_def trimStart_def trimEnd_def js_def isWhiteSpace_def)
  have l: "length (js ''Ada'') = 3" by (simp add: js_def)
  have p1: "trimAndValidateDisplayName (JStr (js '' '')) ?fb = Accepted ?fb"
    using trimAndValidateDisplayName_spec [of ?fb "js '' ''" JUndefined] t1 by blast
  have p2: "trimAndValidateDisplayName (JBool True) ?fb = Rejected (js ''displayName must be a string'')"
    using trimAndValidateDisplayName_spec [of ?fb "[]" "JBool True"] by simp
  have p3: "trimAndValidateDisplayName (JStr (replicate 65 0x61)) ?fb
      = Rejected (js ''displayName must be <= 64 characters'')"
    using trimAndValidateDisplayName_spec [of ?fb "replicate 65 0x61" JUndefined] t2 by simp
  have p4: "trimAndValidateDisplayName (JStr (js '' Ada  '')) ?fb = Accepted (js ''Ada'')"
    using trimAndValidateDisplayName_spec [of ?fb "js '' Ada  ''" JUndefined] t3 l by simp
  have p5: "trimAndValidateDisplayName (JStr (js ''Ada'')) ?fb = Accepted (js ''Ada'')"
    using trimAndValidateDisplayName_spec [of ?fb "js ''Ada''" JUndefined] t4 l by simp
  from p1 p2 p3 p4 p5 show ?thesis by blast
qed

section \<open>Minted usernames\<close>

lemma digitChar_isDigit: "d < 10 \<Longrightarrow> isDigit (digitChar d)"
proof -
  assume "d < 10"
  then have "d \<in> {0, 1, 2, 3, 4, 5, 6, 7, 8, 9}" by auto
  then show ?thesis by (auto simp add: isDigit_def digitChar_def)
qed

lemma natDigits_isDigit: "list_all isDigit (natDigits n)"
proof (induction n rule: natDigits.induct)
  case (1 n)
  show ?case
  proof (cases "n < 10")
    case True
    then show ?thesis by (simp add: natDigits.simps [of n] digitChar_isDigit)
  next
    case False
    with 1 have "list_all isDigit (natDigits (n div 10))" by simp
    moreover have "isDigit (digitChar (n mod 10))" by (simp add: digitChar_isDigit)
    ultimately show ?thesis using False by (simp add: natDigits.simps [of n])
  qed
qed

lemma natDigits_length: "0 < k \<Longrightarrow> n < 10 ^ k \<Longrightarrow> length (natDigits n) \<le> k"
proof (induction k arbitrary: n)
  case 0
  then show ?case by simp
next
  case (Suc k)
  show ?case
  proof (cases "n < 10")
    case True
    then show ?thesis by (simp add: natDigits.simps [of n])
  next
    case False
    then have k: "0 < k" using Suc.prems by (cases k) auto
    from Suc.prems have "n div 10 < 10 ^ k" by (simp add: less_mult_imp_div_less mult.commute)
    with k Suc.IH have "length (natDigits (n div 10)) \<le> k" by simp
    with False show ?thesis by (simp add: natDigits.simps [of n])
  qed
qed

lemma padStart0_digits:
  assumes "list_all isDigit s" and "length s \<le> n"
  shows "length (padStart0 n s) = n \<and> list_all isDigit (padStart0 n s)"
proof -
  have "isDigit (digitChar 0)" by (simp add: digitChar_isDigit)
  then have "list_all isDigit (replicate (n - length s) (digitChar 0))"
    by (simp add: list_all_iff)
  with assms show ?thesis by (simp add: padStart0_def)
qed

subsection \<open>Rounding to a double\<close>

lemma binade_props:
  "e0 - int fuel \<le> binade fuel e0 x \<and> binade fuel e0 x \<le> e0
 \<and> (e0 - int fuel < binade fuel e0 x \<longrightarrow> 2 powi (binade fuel e0 x) \<le> x)
 \<and> (binade fuel e0 x < e0 \<longrightarrow> x < 2 powi (binade fuel e0 x + 1))"
proof (induction fuel arbitrary: e0)
  case 0
  then show ?case by simp
next
  case (Suc fuel)
  show ?case
  proof (cases "2 powi e0 \<le> x")
    case True
    then show ?thesis by simp
  next
    case False
    let ?e = "binade fuel (e0 - 1) x"
    from Suc.IH [of "e0 - 1"] have ih:
      "e0 - 1 - int fuel \<le> ?e" "?e \<le> e0 - 1"
      "e0 - 1 - int fuel < ?e \<longrightarrow> 2 powi ?e \<le> x"
      "?e < e0 - 1 \<longrightarrow> x < 2 powi (?e + 1)" by simp_all
    have up: "x < 2 powi (?e + 1)"
    proof (cases "?e < e0 - 1")
      case True
      with ih(4) show ?thesis by simp
    next
      case False
      with ih(2) have "?e + 1 = e0" by simp
      with \<open>\<not> 2 powi e0 \<le> x\<close> show ?thesis by simp
    qed
    from False ih up show ?thesis by simp
  qed
qed

lemma exponentOf_range: "- 1022 \<le> exponentOf x \<and> exponentOf x \<le> 1023"
  using binade_props [of 1023 2045 "\<bar>x\<bar>"] by (simp add: exponentOf_def)

lemma exponentOf_lower: "- 1022 < exponentOf x \<Longrightarrow> 2 powi (exponentOf x) \<le> \<bar>x\<bar>"
  using binade_props [of 1023 2045 "\<bar>x\<bar>"] by (simp add: exponentOf_def)

lemma exponentOf_upper: "exponentOf x < 1023 \<Longrightarrow> \<bar>x\<bar> < 2 powi (exponentOf x + 1)"
  using binade_props [of 1023 2045 "\<bar>x\<bar>"] by (simp add: exponentOf_def)

lemma pow2_less_iff: "(2::rat) powi a < 2 powi b \<longleftrightarrow> a < b"
proof
  assume "(2::rat) powi a < 2 powi b"
  show "a < b"
  proof (rule ccontr)
    assume "\<not> a < b"
    then have "b \<le> a" by simp
    then have "(2::rat) powi b \<le> 2 powi a" by (intro power_int_increasing) simp_all
    with \<open>(2::rat) powi a < 2 powi b\<close> show False by simp
  qed
next
  assume "a < b"
  then show "(2::rat) powi a < 2 powi b" by (intro power_int_strict_increasing) simp_all
qed

lemma exponentOf_unique:
  assumes "2 powi E \<le> \<bar>x\<bar>" and "\<bar>x\<bar> < 2 powi (E + 1)" and "- 1022 \<le> E" and "E \<le> 1023"
  shows "exponentOf x = E"
proof (rule ccontr)
  assume ne: "exponentOf x \<noteq> E"
  show False
  proof (cases "exponentOf x < E")
    case True
    with assms(4) have "exponentOf x < 1023" by simp
    then have "\<bar>x\<bar> < 2 powi (exponentOf x + 1)" by (rule exponentOf_upper)
    with assms(1) have "(2::rat) powi E < 2 powi (exponentOf x + 1)" by simp
    then have "E < exponentOf x + 1" by (simp only: pow2_less_iff)
    with True show False by simp
  next
    case False
    with ne have gt: "E < exponentOf x" by simp
    with assms(3) have "- 1022 < exponentOf x" by simp
    then have "2 powi (exponentOf x) \<le> \<bar>x\<bar>" by (rule exponentOf_lower)
    with assms(2) have "(2::rat) powi (exponentOf x) < 2 powi (E + 1)" by simp
    then have "exponentOf x < E + 1" by (simp only: pow2_less_iff)
    with gt show False by simp
  qed
qed

lemma exponentOf_small:
  assumes "\<bar>x\<bar> < 2 powi E" and "- 1022 < E"
  shows "exponentOf x < E"
proof (cases "- 1022 < exponentOf x")
  case True
  then have "2 powi (exponentOf x) \<le> \<bar>x\<bar>" by (rule exponentOf_lower)
  with assms(1) have "(2::rat) powi (exponentOf x) < 2 powi E" by simp
  then show ?thesis by (simp only: pow2_less_iff)
next
  case False
  with exponentOf_range [of x] have "exponentOf x = - 1022" by simp
  with assms(2) show ?thesis by simp
qed

lemma roundHalfEven_bounds:
  "of_int (roundHalfEven q) \<le> q + 1 / 2 \<and> q - 1 / 2 \<le> of_int (roundHalfEven q)"
proof -
  define f where "f = \<lfloor>q\<rfloor>"
  have f: "of_int f \<le> q" "q < of_int f + 1" unfolding f_def by linarith+
  have r: "roundHalfEven q =
      (if q - of_int f < 1 / 2 then f else if 1 / 2 < q - of_int f then f + 1
       else if even f then f else f + 1)"
    by (simp add: roundHalfEven_def Let_def f_def)
  show ?thesis
  proof (cases "q - of_int f < 1 / 2")
    case True
    with r have "roundHalfEven q = f" by simp
    with f True show ?thesis by simp
  next
    case False
    show ?thesis
    proof (cases "1 / 2 < q - of_int f")
      case True
      with False r have "roundHalfEven q = f + 1" by simp
      with f True show ?thesis by simp
    next
      case nt: False
      with False have h: "q - of_int f = 1 / 2" by simp
      from r False nt have "roundHalfEven q = f \<or> roundHalfEven q = f + 1" by simp
      with h show ?thesis by auto
    qed
  qed
qed

lemma roundHalfEven_of_int: "roundHalfEven (of_int k) = k"
  by (simp add: roundHalfEven_def)

lemma roundHalfEven_less:
  assumes "q < of_int N - 1 / 2"
  shows "roundHalfEven q \<le> N - 1"
proof -
  from roundHalfEven_bounds [of q] assms have "(of_int (roundHalfEven q) :: rat) < of_int N" by linarith
  then have "roundHalfEven q < N" by (simp only: of_int_less_iff)
  then show ?thesis by simp
qed

lemma roundHalfEven_le:
  assumes "q \<le> of_int N"
  shows "roundHalfEven q \<le> N"
proof -
  from roundHalfEven_bounds [of q] assms have "(of_int (roundHalfEven q) :: rat) < of_int N + 1" by linarith
  then have "(of_int (roundHalfEven q) :: rat) < of_int (N + 1)" by simp
  then have "roundHalfEven q < N + 1" by (simp only: of_int_less_iff)
  then show ?thesis by simp
qed

lemma roundHalfEven_nonneg:
  assumes "0 \<le> q"
  shows "0 \<le> roundHalfEven q"
proof -
  from assms have "0 \<le> \<lfloor>q\<rfloor>" by simp
  then show ?thesis by (auto simp add: roundHalfEven_def Let_def)
qed

lemma roundToDouble_nonneg:
  assumes "0 \<le> x"
  shows "0 \<le> roundToDouble x"
proof -
  have "0 \<le> x / 2 powi (exponentOf x - 52)" using assms by simp
  then have "0 \<le> roundHalfEven (x / 2 powi (exponentOf x - 52))" by (rule roundHalfEven_nonneg)
  then show ?thesis by (simp add: roundToDouble_def Let_def)
qed

lemma roundToDouble_le_pow2:
  assumes "0 \<le> x" and "x < 2 powi E" and "- 1022 < E" and "E \<le> 1023"
  shows "roundToDouble x \<le> 2 powi E"
proof -
  let ?e = "exponentOf x"
  let ?u = "(2::rat) powi (?e - 52)"
  from assms have lt: "?e < E" by (intro exponentOf_small) simp_all
  with assms(4) have "?e < 1023" by simp
  then have "\<bar>x\<bar> < 2 powi (?e + 1)" by (rule exponentOf_upper)
  with assms(1) have x: "x < 2 powi (?e + 1)" by simp
  have u: "0 < ?u" by simp
  have "(2::rat) powi (53 + (?e - 52)) = 2 powi 53 * 2 powi (?e - 52)"
    by (rule power_int_add) simp
  moreover have "53 + (?e - 52) = ?e + 1" by simp
  ultimately have split: "(2::rat) powi (?e + 1) = 2 powi 53 * ?u" by simp
  from x split have "x < 2 powi 53 * ?u" by simp
  with u have "x / ?u < 2 powi 53" by (simp add: pos_divide_less_eq)
  then have "x / ?u \<le> of_int (2 ^ 53)" by simp
  then have "roundHalfEven (x / ?u) \<le> 2 ^ 53" by (rule roundHalfEven_le)
  then have "(of_int (roundHalfEven (x / ?u)) :: rat) \<le> of_int (2 ^ 53)" by (simp only: of_int_le_iff)
  then have "(of_int (roundHalfEven (x / ?u)) :: rat) \<le> 2 powi 53" by simp
  with u have "of_int (roundHalfEven (x / ?u)) * ?u \<le> 2 powi 53 * ?u"
    by (intro mult_right_mono) simp_all
  with split have "roundToDouble x \<le> 2 powi (?e + 1)" by (simp add: roundToDouble_def Let_def)
  also from lt have "(2::rat) powi (?e + 1) \<le> 2 powi E" by (intro power_int_increasing) simp_all
  finally show ?thesis .
qed

lemma unit_double_gap:
  assumes "isDouble r" and "1 / 2 \<le> r" and "r < 1"
  shows "r \<le> 1 - 1 / 2 ^ 53"
proof -
  have "(2::rat) powi (- 1) = 1 / 2" by (simp add: power_int_minus)
  with assms have "2 powi (- 1) \<le> \<bar>r\<bar>" "\<bar>r\<bar> < 2 powi (- 1 + 1)" by simp_all
  then have e: "exponentOf r = - 1" by (rule exponentOf_unique) simp_all
  define k where "k = roundHalfEven (r / 2 powi (- 53))"
  have u: "(2::rat) powi (- 53) = 1 / 2 ^ 53" by (simp add: power_int_minus field_simps)
  from assms(1) e have "r = of_int k * 2 powi (- 53)"
    by (simp add: isDouble_def roundToDouble_def Let_def k_def)
  with u have r: "r = of_int k / 2 ^ 53" by simp
  with assms(3) have "(of_int k :: rat) < 2 ^ 53" by (simp add: field_simps)
  then have "(of_int k :: rat) < of_int (2 ^ 53)" by simp
  then have "k < 2 ^ 53" by (simp only: of_int_less_iff)
  then have "k \<le> 2 ^ 53 - 1" by simp
  then have "(of_int k :: rat) \<le> of_int (2 ^ 53 - 1)" by (simp only: of_int_le_iff)
  then have "(of_int k :: rat) \<le> 2 ^ 53 - 1" by simp
  then have "(of_int k :: rat) / 2 ^ 53 \<le> (2 ^ 53 - 1) / 2 ^ 53" by (intro divide_right_mono) simp_all
  with r show ?thesis by (simp add: field_simps)
qed

lemma times_double_below:
  fixes r :: rat
  assumes "isDouble r" and "0 \<le> r" and "r < 1"
    and "(2::rat) powi E < of_nat n" and "of_nat n < (2::rat) powi (E + 1)" and "0 \<le> E" and "E \<le> 52"
  shows "0 \<le> roundToDouble (r * of_nat n) \<and> roundToDouble (r * of_nat n) < of_nat n"
proof -
  let ?x = "r * of_nat n"
  have "(0::rat) < 2 powi E" by simp
  with assms(4) have n0: "(0::rat) < of_nat n" by linarith
  have x0: "0 \<le> ?x" using assms(2) by simp
  have xn: "?x < of_nat n" using assms(3) n0 by simp
  have nonneg: "0 \<le> roundToDouble ?x" using x0 by (rule roundToDouble_nonneg)
  have "roundToDouble ?x < of_nat n"
  proof (cases "?x < 2 powi E")
    case True
    with x0 have "roundToDouble ?x \<le> 2 powi E" using assms(6,7) by (intro roundToDouble_le_pow2) simp_all
    with assms(4) show ?thesis by simp
  next
    case False
    then have lo: "2 powi E \<le> ?x" by simp
    from xn assms(5) have hi: "?x < 2 powi (E + 1)" by simp
    from lo hi x0 have e: "exponentOf ?x = E" using assms(6,7) by (intro exponentOf_unique) simp_all
    have two: "(2::rat) powi (E + 1) = 2 * 2 powi E"
      using power_int_add [of "2::rat" 1 E] by (simp add: add.commute)
    have half: "1 / 2 \<le> r"
    proof (rule ccontr)
      assume "\<not> 1 / 2 \<le> r"
      then have "r < 1 / 2" by simp
      with n0 have "r * of_nat n < 1 / 2 * of_nat n" by (intro mult_strict_right_mono)
      also from assms(5) two have "1 / 2 * of_nat n < (2::rat) powi E" by simp
      finally show False using lo by simp
    qed
    from assms(1) half assms(3) have gap: "r \<le> 1 - 1 / 2 ^ 53" by (rule unit_double_gap)
    define P :: rat where "P = 2 powi (52 - E)"
    define N :: int where "N = int n * 2 ^ nat (52 - E)"
    let ?u = "(2::rat) powi (E - 52)"
    have P0: "0 < P" by (simp add: P_def)
    have PN: "of_int N = of_nat n * P"
      using assms(7) by (simp add: N_def P_def power_int_nonneg_exp)
    have "(2::rat) powi ((E - 52) + (52 - E)) = ?u * P"
      unfolding P_def by (rule power_int_add) simp
    then have uP: "?u * P = 1" by simp
    have "(2::rat) powi ((52 - E) + E) = P * 2 powi E"
      unfolding P_def by (rule power_int_add) simp
    then have PE: "P * 2 powi E = 2 ^ 52" by simp
    have inv: "?x / ?u = ?x * P"
      using uP by (simp add: field_simps)
    from gap n0 have g1: "r * of_nat n \<le> (1 - 1 / 2 ^ 53) * of_nat n" by (intro mult_right_mono) simp_all
    from P0 have "0 \<le> P" by simp
    with g1 have "?x * P \<le> (1 - 1 / 2 ^ 53) * of_nat n * P" by (rule mult_right_mono)
    then have q1: "?x * P \<le> of_int N - of_nat n * P / 2 ^ 53" by (simp add: PN algebra_simps)
    from assms(4) P0 have "P * 2 powi E < P * of_nat n" by (intro mult_strict_left_mono)
    with PE have "2 ^ 52 < of_nat n * P" by (simp add: mult.commute)
    then have "(1::rat) / 2 < of_nat n * P / 2 ^ 53" by simp
    with q1 inv have "?x / ?u < of_int N - 1 / 2" by linarith
    then have "roundHalfEven (?x / ?u) \<le> N - 1" by (rule roundHalfEven_less)
    then have "(of_int (roundHalfEven (?x / ?u)) :: rat) \<le> of_int (N - 1)" by (simp only: of_int_le_iff)
    then have "of_int (roundHalfEven (?x / ?u)) * ?u \<le> of_int (N - 1) * ?u"
      by (intro mult_right_mono) simp_all
    also have "of_int (N - 1) * ?u = of_nat n * (P * ?u) - ?u" by (simp add: PN algebra_simps)
    also have "\<dots> = of_nat n - ?u" using uP by (simp add: mult.commute)
    also have "\<dots> < of_nat n" by simp
    finally show ?thesis using e by (simp add: roundToDouble_def Let_def)
  qed
  with nonneg show ?thesis by simp
qed

lemma floor_times_double:
  fixes r :: rat
  assumes "isDouble r" and "0 \<le> r" and "r < 1"
    and "(2::rat) powi E < of_nat n" and "of_nat n < (2::rat) powi (E + 1)" and "0 \<le> E" and "E \<le> 52"
  shows "0 \<le> \<lfloor>roundToDouble (r * of_nat n)\<rfloor> \<and> \<lfloor>roundToDouble (r * of_nat n)\<rfloor> < int n"
proof -
  from times_double_below [OF assms]
  have a: "0 \<le> roundToDouble (r * of_nat n)" and b: "roundToDouble (r * of_nat n) < of_nat n" by simp_all
  from a have "0 \<le> \<lfloor>roundToDouble (r * of_nat n)\<rfloor>" by simp
  moreover from b have "roundToDouble (r * of_nat n) < of_int (int n)" by simp
  then have "\<lfloor>roundToDouble (r * of_nat n)\<rfloor> < int n" by (simp only: floor_less_iff)
  ultimately show ?thesis by simp
qed


lemma roundToDouble_exact:
  assumes "2 powi E \<le> \<bar>x\<bar>" and "\<bar>x\<bar> < 2 powi (E + 1)" and "- 1022 \<le> E" and "E \<le> 1023"
    and "x / 2 powi (E - 52) = of_int k"
  shows "roundToDouble x = x"
proof -
  from assms(1-4) have e: "exponentOf x = E" by (rule exponentOf_unique)
  have "x = x / 2 powi (E - 52) * 2 powi (E - 52)" by simp
  with assms(5) have "x = of_int k * 2 powi (E - 52)" by simp
  with e assms(5) show ?thesis by (simp add: roundToDouble_def Let_def roundHalfEven_of_int)
qed

subsection \<open>The pattern\<close>

lemma poolAt_mem:
  assumes "isUnitDouble r"
    and "(2::rat) powi E < of_nat (length pool)" and "of_nat (length pool) < (2::rat) powi (E + 1)"
    and "0 \<le> E" and "E \<le> 52"
  shows "poolAt pool (mathFloorTimes r (length pool)) \<in> set pool"
proof -
  let ?i = "mathFloorTimes r (length pool)"
  from assms(1) have "isDouble r" "0 \<le> r" "r < 1" by (simp_all add: isUnitDouble_def)
  from floor_times_double [OF this assms(2-5)]
  have i: "0 \<le> ?i" "?i < int (length pool)" by (simp_all add: mathFloorTimes_def)
  then have "nat ?i < length pool" by linarith
  then have "pool ! nat ?i \<in> set pool" by (rule nth_mem)
  moreover from i have "poolAt pool ?i = pool ! nat ?i" by (simp add: poolAt_def)
  ultimately show ?thesis by simp
qed

lemma suffix_digits:
  assumes "isUnitDouble r"
  shows "length (padStart0 4 (intToString (mathFloorTimes r 10000))) = 4
       \<and> list_all isDigit (padStart0 4 (intToString (mathFloorTimes r 10000)))"
proof -
  let ?i = "mathFloorTimes r 10000"
  from assms have "isDouble r" "0 \<le> r" "r < 1" by (simp_all add: isUnitDouble_def)
  from floor_times_double [OF this, of 13 10000]
  have b: "0 \<le> ?i" "?i < 10000" by (simp_all add: mathFloorTimes_def)
  then have s: "intToString ?i = natDigits (nat ?i)" by (simp add: intToString_def)
  from b have "nat ?i < 10000" by linarith
  then have "nat ?i < 10 ^ 4" by simp
  then have "length (natDigits (nat ?i)) \<le> 4" by (intro natDigits_length) simp_all
  with s show ?thesis by (simp add: padStart0_digits natDigits_isDigit)
qed

lemma generateUsername_pattern:
  assumes "\<forall>k<3. isUnitDouble (random k)"
  shows "matchesUsernamePattern (generateUsername random)"
proof -
  let ?a = "poolAt adjectivePool (mathFloorTimes (random 0) (length adjectivePool))"
  let ?n = "poolAt nounPool (mathFloorTimes (random 1) (length nounPool))"
  let ?d = "padStart0 4 (intToString (mathFloorTimes (random 2) 10000))"
  from assms have r0: "isUnitDouble (random 0)" and r1: "isUnitDouble (random 1)"
    and r2: "isUnitDouble (random 2)" by simp_all
  have a: "?a \<in> set adjectivePool"
    using r0 by (rule poolAt_mem [where E = 3]) (simp_all add: adjectivePool_def)
  have n: "?n \<in> set nounPool"
    using r1 by (rule poolAt_mem [where E = 3]) (simp_all add: nounPool_def)
  have d: "length ?d = 4 \<and> list_all isDigit ?d" using r2 by (rule suffix_digits)
  have g: "generateUsername random = (?a @ js ''-'' @ ?n @ js ''-'') @ ?d"
    by (simp add: generateUsername_def Let_def)
  have "let p = ?a @ js ''-'' @ ?n @ js ''-''
        in take (length p) (generateUsername random) = p
         \<and> length (generateUsername random) = length p + 4
         \<and> list_all isDigit (drop (length p) (generateUsername random))"
    unfolding Let_def g using d by simp
  with a n show ?thesis unfolding matchesUsernamePattern_def list_ex_iff by blast
qed

lemma generateUsername_nonempty: "generateUsername random \<noteq> []"
  by (simp add: generateUsername_def Let_def js_def)


section \<open>Identity resolution\<close>

lemma mintIdentity_eq:
  "mintIdentity w =
     (generateUsername (mathRandom w),
      [SetCookie IDENTITY_COOKIE_NAME (generateUsername (mathRandom w))
         \<lparr> path = js ''/'', httpOnly = True, sameSite = js ''lax'',
           secure = COOKIE_SECURE w, signed = True, maxAge = 31536000 \<rparr>])"
  by (simp add: mintIdentity_def Let_def IDENTITY_MAX_AGE_SECONDS_def)

lemma ensureIdentity_existing:
  assumes "cookies request = Some c" and "c \<noteq> []" and "valid (unsignCookie w c)"
    and "unsignedValue (unsignCookie w c) = Some u" and "u \<noteq> []"
  shows "ensureIdentity w request = (u, [])"
  using assms by (simp add: ensureIdentity_def Let_def)

lemma ensureIdentity_otherwise:
  assumes "\<not> (\<exists>c u. cookies request = Some c \<and> c \<noteq> [] \<and> valid (unsignCookie w c)
                 \<and> unsignedValue (unsignCookie w c) = Some u \<and> u \<noteq> [])"
  shows "ensureIdentity w request = mintIdentity w"
  using assms by (auto simp add: ensureIdentity_def Let_def split: option.splits)

lemma ensureIdentity_absent: "ensureIdentity w (request\<lparr> cookies := None \<rparr>) = mintIdentity w"
  by (simp add: ensureIdentity_def)

lemma example_products:
  "roundToDouble (5 / 4) = 5 / 4"
  "roundToDouble 5 = 5"
  "roundToDouble (246875 / 512) = 246875 / 512"
proof -
  show "roundToDouble (5 / 4) = 5 / 4"
    by (rule roundToDouble_exact [where E = 0 and k = 5629499534213120])
      (simp_all add: power_int_minus)
  show "roundToDouble 5 = 5"
    by (rule roundToDouble_exact [where E = 2 and k = 5629499534213120])
      (simp_all add: power_int_minus)
  show "roundToDouble (246875 / 512) = 246875 / 512"
    by (rule roundToDouble_exact [where E = 8 and k = 8482560409600000])
      (simp_all add: power_int_minus)
qed

lemma example_floors:
  "mathFloorTimes (1 / 8) 10 = 1" "mathFloorTimes (1 / 2) 10 = 5" "mathFloorTimes (395 / 8192) 10000 = 482"
proof -
  have f1: "\<lfloor>5 / 4 :: rat\<rfloor> = 1" by (rule floor_unique) simp_all
  have "(1 / 8 :: rat) * of_nat 10 = 5 / 4" by simp
  with f1 show "mathFloorTimes (1 / 8) 10 = 1"
    unfolding mathFloorTimes_def by (simp only: example_products)
  have "(1 / 2 :: rat) * of_nat 10 = 5" by simp
  then show "mathFloorTimes (1 / 2) 10 = 5"
    unfolding mathFloorTimes_def by (simp only: example_products floor_numeral)
  have f3: "\<lfloor>246875 / 512 :: rat\<rfloor> = 482" by (rule floor_unique) simp_all
  have "(395 / 8192 :: rat) * of_nat 10000 = 246875 / 512" by simp
  with f3 show "mathFloorTimes (395 / 8192) 10000 = 482"
    unfolding mathFloorTimes_def by (simp only: example_products)
qed

lemma exampleRandom_doubles: "\<forall>k<3. isUnitDouble (exampleRandom k)"
proof -
  have "roundToDouble (1 / 8) = 1 / 8"
    by (rule roundToDouble_exact [where E = "- 3" and k = 4503599627370496])
      (simp_all add: power_int_minus)
  moreover have "roundToDouble (1 / 2) = 1 / 2"
    by (rule roundToDouble_exact [where E = "- 1" and k = 4503599627370496])
      (simp_all add: power_int_minus)
  moreover have "roundToDouble (395 / 8192) = 395 / 8192"
    by (rule roundToDouble_exact [where E = "- 5" and k = 6948913487544320])
      (simp_all add: power_int_minus)
  ultimately show ?thesis by (simp add: isUnitDouble_def isDouble_def exampleRandom_def)
qed

lemma exampleUsername: "generateUsername exampleRandom = js ''Swift-Otter-0482''"
proof -
  have len: "length adjectivePool = 10" "length nounPool = 10"
    by (simp_all add: adjectivePool_def nounPool_def)
  have "generateUsername exampleRandom
      = poolAt adjectivePool 1 @ js ''-'' @ poolAt nounPool 5 @ js ''-'' @ padStart0 4 (intToString 482)"
    by (simp add: generateUsername_def Let_def exampleRandom_def len example_floors)
  then show ?thesis
    by (simp add: poolAt_def adjectivePool_def nounPool_def padStart0_def intToString_def
        natDigits.simps digitChar_def js_def)
qed

text \<open>
  The double that \<open>0.7\<close> denotes lies below seven tenths, and ten times it lies halfway
  between two doubles; the product is the even one, 7.
\<close>

lemma nearestSevenTenths_index:
  "isUnitDouble nearestSevenTenths \<and> mathFloorTimes nearestSevenTenths 10 = 7
 \<and> poolAt adjectivePool (mathFloorTimes nearestSevenTenths (length adjectivePool)) = js ''Gentle''"
proof -
  let ?x = "15762598695796735 / 2251799813685248 :: rat"
  have d: "roundToDouble nearestSevenTenths = nearestSevenTenths"
    unfolding nearestSevenTenths_def
    by (rule roundToDouble_exact [where E = "- 1" and k = 6305039478318694])
      (simp_all add: power_int_minus)
  have x: "nearestSevenTenths * of_nat 10 = ?x" by (simp add: nearestSevenTenths_def)
  have "2 powi 2 \<le> \<bar>?x\<bar>" "\<bar>?x\<bar> < 2 powi (2 + 1)" by simp_all
  then have e: "exponentOf ?x = 2" by (rule exponentOf_unique) simp_all
  have u: "(2::rat) powi (2 - 52) = 1 / 1125899906842624" by (simp add: power_int_minus field_simps)
  have q: "?x / (1 / 1125899906842624) = 15762598695796735 / 2" by simp
  have f: "\<lfloor>15762598695796735 / 2 :: rat\<rfloor> = 7881299347898367" by (rule floor_unique) simp_all
  have r: "roundHalfEven (15762598695796735 / 2) = 7881299347898368"
    by (simp add: roundHalfEven_def f Let_def)
  have "roundToDouble ?x = 7"
    unfolding roundToDouble_def Let_def e u q r by simp
  then have i: "mathFloorTimes nearestSevenTenths 10 = 7"
    unfolding mathFloorTimes_def x by simp
  have len: "length adjectivePool = 10" by (simp add: adjectivePool_def)
  have "poolAt adjectivePool 7 = js ''Gentle''" by (simp add: poolAt_def adjectivePool_def)
  with i have "poolAt adjectivePool (mathFloorTimes nearestSevenTenths (length adjectivePool)) = js ''Gentle''"
    by (simp only: len)
  moreover have "0 \<le> nearestSevenTenths" "nearestSevenTenths < 1" by (simp_all add: nearestSevenTenths_def)
  ultimately show ?thesis using d i by (simp add: isUnitDouble_def isDouble_def)
qed

lemma nearest121TenThousandths_suffix:
  "isUnitDouble nearest121TenThousandths \<and> mathFloorTimes nearest121TenThousandths 10000 = 121
 \<and> padStart0 4 (intToString (mathFloorTimes nearest121TenThousandths 10000)) = js ''0121''"
proof -
  let ?x = "34058472181989375 / 281474976710656 :: rat"
  have d: "roundToDouble nearest121TenThousandths = nearest121TenThousandths"
    unfolding nearest121TenThousandths_def
    by (rule roundToDouble_exact [where E = "- 7" and k = 6975175102871424])
      (simp_all add: power_int_minus)
  have x: "nearest121TenThousandths * of_nat 10000 = ?x" by (simp add: nearest121TenThousandths_def)
  have "2 powi 6 \<le> \<bar>?x\<bar>" "\<bar>?x\<bar> < 2 powi (6 + 1)" by simp_all
  then have e: "exponentOf ?x = 6" by (rule exponentOf_unique) simp_all
  have u: "(2::rat) powi (6 - 52) = 1 / 70368744177664" by (simp add: power_int_minus field_simps)
  have q: "?x / (1 / 70368744177664) = 34058472181989375 / 4" by simp
  have f: "\<lfloor>34058472181989375 / 4 :: rat\<rfloor> = 8514618045497343" by (rule floor_unique) simp_all
  have r: "roundHalfEven (34058472181989375 / 4) = 8514618045497344"
    by (simp add: roundHalfEven_def f Let_def)
  have "roundToDouble ?x = 121"
    unfolding roundToDouble_def Let_def e u q r by simp
  then have i: "mathFloorTimes nearest121TenThousandths 10000 = 121"
    unfolding mathFloorTimes_def x by simp
  have "padStart0 4 (intToString 121) = js ''0121''"
    by (simp add: padStart0_def intToString_def natDigits.simps digitChar_def js_def)
  moreover have "0 \<le> nearest121TenThousandths" "nearest121TenThousandths < 1"
    by (simp_all add: nearest121TenThousandths_def)
  ultimately show ?thesis using d i by (simp add: isUnitDouble_def isDouble_def)
qed

text \<open>
  Claim C6. When the request carries a cookie that the plugin verifies and that holds a
  username, \<open>ensureIdentity\<close> returns that username unchanged and sets no cookie. When
  the cookie is absent or its verification fails, the result is the same in both cases:
  a fresh username, of the shape Adjective-Noun-DDDD whenever the three random draws are
  doubles in the unit interval (at least 0, less than 1), and exactly one signed cookie
  that binds this username.
\<close>

theorem ensureIdentity_spec:
  "(cookies request = Some c \<and> c \<noteq> [] \<and> valid (unsignCookie w c)
      \<and> unsignedValue (unsignCookie w c) = Some u \<and> u \<noteq> []
    \<longrightarrow> ensureIdentity w request = (u, []))
 \<and> (cookies request = None \<or> (cookies request = Some c \<and> \<not> valid (unsignCookie w c))
    \<longrightarrow> ensureIdentity w request = mintIdentity w
      \<and> ensureIdentity w request = ensureIdentity w (request\<lparr> cookies := None \<rparr>))
 \<and> mintIdentity w =
      (generateUsername (mathRandom w),
       [SetCookie IDENTITY_COOKIE_NAME (generateUsername (mathRandom w))
          \<lparr> path = js ''/'', httpOnly = True, sameSite = js ''lax'',
            secure = COOKIE_SECURE w, signed = True, maxAge = 31536000 \<rparr>])
 \<and> ((\<forall>k<3. isUnitDouble (mathRandom w k))
    \<longrightarrow> matchesUsernamePattern (generateUsername (mathRandom w)))"
proof -
  have a: "cookies request = Some c \<and> c \<noteq> [] \<and> valid (unsignCookie w c)
      \<and> unsignedValue (unsignCookie w c) = Some u \<and> u \<noteq> []
    \<longrightarrow> ensureIdentity w request = (u, [])"
    using ensureIdentity_existing by blast
  have b: "cookies request = None \<or> (cookies request = Some c \<and> \<not> valid (unsignCookie w c))
    \<longrightarrow> ensureIdentity w request = mintIdentity w"
    using ensureIdentity_otherwise [of request w] by auto
  have c: "(\<forall>k<3. isUnitDouble (mathRandom w k))
    \<longrightarrow> matchesUsernamePattern (generateUsername (mathRandom w))"
    using generateUsername_pattern by blast
  from a b c mintIdentity_eq [of w] ensureIdentity_absent [of w request] show ?thesis by simp
qed

theorem ensureIdentity_spec_witness:
  "ensureIdentity exampleWorld (exampleRequest\<lparr> cookies := Some (js ''Kind-Fox-0007.good'') \<rparr>)
     = (js ''Kind-Fox-0007'', [])
 \<and> ensureIdentity exampleWorld exampleRequest = mintIdentity exampleWorld
 \<and> ensureIdentity exampleWorld (exampleRequest\<lparr> cookies := Some (js ''Kind-Fox-0007.bad'') \<rparr>)
     = mintIdentity exampleWorld
 \<and> fst (mintIdentity exampleWorld) = js ''Swift-Otter-0482''
 \<and> matchesUsernamePattern (js ''Swift-Otter-0482'')"
proof -
  let ?good = "js ''Kind-Fox-0007.good''" and ?bad = "js ''Kind-Fox-0007.bad''"
  have w: "unsignCookie exampleWorld = exampleUnsign" "mathRandom exampleWorld = exampleRandom"
    by (simp_all add: exampleWorld_def)
  have g: "exampleUnsign ?good = \<lparr> valid = True, unsignedValue = Some (js ''Kind-Fox-0007'') \<rparr>"
    by (simp add: exampleUnsign_def)
  have bd: "\<not> valid (exampleUnsign ?bad)"
    by (simp add: exampleUnsign_def js_def)
  have ne: "?good \<noteq> []" "js ''Kind-Fox-0007'' \<noteq> []" by (simp_all add: js_def)
  have rnd: "\<forall>k<3. isUnitDouble (exampleRandom k)"
    by (rule exampleRandom_doubles)
  have p1: "ensureIdentity exampleWorld (exampleRequest\<lparr> cookies := Some ?good \<rparr>)
     = (js ''Kind-Fox-0007'', [])"
    using ensureIdentity_spec [of "exampleRequest\<lparr> cookies := Some ?good \<rparr>" ?good exampleWorld
        "js ''Kind-Fox-0007''"] w g ne by simp
  have p2: "ensureIdentity exampleWorld exampleRequest = mintIdentity exampleWorld"
    using ensureIdentity_spec [of exampleRequest "[]" exampleWorld "[]"]
    by (simp add: exampleRequest_def)
  have p3: "ensureIdentity exampleWorld (exampleRequest\<lparr> cookies := Some ?bad \<rparr>)
     = mintIdentity exampleWorld"
    using ensureIdentity_spec [of "exampleRequest\<lparr> cookies := Some ?bad \<rparr>" ?bad exampleWorld "[]"] w bd
    by simp
  have p4: "fst (mintIdentity exampleWorld) = js ''Swift-Otter-0482''"
    using ensureIdentity_spec [of exampleRequest "[]" exampleWorld "[]"] w exampleUsername by simp
  have p5: "matchesUsernamePattern (js ''Swift-Otter-0482'')"
    using ensureIdentity_spec [of exampleRequest "[]" exampleWorld "[]"] w rnd exampleUsername by simp
  from p1 p2 p3 p4 p5 show ?thesis by blast
qed



section \<open>The rate limiter\<close>

lemma check_other_key: "k \<noteq> key \<Longrightarrow> snd (rateLimiter_check W N now key m) k = m k"
  by (simp add: rateLimiter_check_def split: option.splits)

lemma check_depends_on_key:
  assumes "m key = m' key"
  shows "fst (rateLimiter_check W N now key m) = fst (rateLimiter_check W N now key m')
       \<and> snd (rateLimiter_check W N now key m) key = snd (rateLimiter_check W N now key m') key"
  using assms by (simp add: rateLimiter_check_def split: option.splits)

lemma checks_Cons:
  "checks W N ((now, key) # calls) m =
     (fst (rateLimiter_check W N now key m) # fst (checks W N calls (snd (rateLimiter_check W N now key m))),
      snd (checks W N calls (snd (rateLimiter_check W N now key m))))"
  by (simp add: split_beta Let_def)

lemma length_checks: "length (fst (checks W N calls m)) = length calls"
  by (induction calls arbitrary: m) (auto simp add: checks_Cons simp del: checks.simps(2))

lemma checks_same_key_agree:
  assumes "\<forall>c\<in>set calls. snd c = k" and "m k = m' k"
  shows "fst (checks W N calls m) = fst (checks W N calls m')
       \<and> snd (checks W N calls m) k = snd (checks W N calls m') k"
  using assms
proof (induction calls arbitrary: m m')
  case Nil
  then show ?case by simp
next
  case (Cons c calls)
  obtain now key where c: "c = (now, key)" by (cases c)
  with Cons.prems have key: "key = k" by simp
  from Cons.prems(2) key have step:
    "fst (rateLimiter_check W N now key m) = fst (rateLimiter_check W N now key m')"
    "snd (rateLimiter_check W N now key m) k = snd (rateLimiter_check W N now key m') k"
    using check_depends_on_key [of m key m' W N now] by simp_all
  from Cons.prems(1) have "\<forall>c\<in>set calls. snd c = k" by simp
  with step(2) have "fst (checks W N calls (snd (rateLimiter_check W N now key m)))
        = fst (checks W N calls (snd (rateLimiter_check W N now key m')))
      \<and> snd (checks W N calls (snd (rateLimiter_check W N now key m))) k
        = snd (checks W N calls (snd (rateLimiter_check W N now key m'))) k"
    by (intro Cons.IH) simp_all
  with step(1) show ?case
    by (simp add: c checks_Cons del: checks.simps(2))
qed

lemma checks_project:
  "map snd (filter (\<lambda>cb. snd (fst cb) = k) (zip calls (fst (checks W N calls m))))
     = fst (checks W N (filter (\<lambda>c. snd c = k) calls) m)"
proof (induction calls arbitrary: m)
  case Nil
  then show ?case by simp
next
  case (Cons c calls)
  obtain now key where c: "c = (now, key)" by (cases c)
  let ?m' = "snd (rateLimiter_check W N now key m)"
  show ?case
  proof (cases "key = k")
    case True
    with Cons.IH [of ?m'] show ?thesis by (simp add: c checks_Cons del: checks.simps(2))
  next
    case False
    then have "?m' k = m k" by (simp add: check_other_key)
    then have "fst (checks W N (filter (\<lambda>c. snd c = k) calls) ?m')
             = fst (checks W N (filter (\<lambda>c. snd c = k) calls) m)"
      using checks_same_key_agree [of "filter (\<lambda>c. snd c = k) calls" k ?m' m W N] by simp
    with False Cons.IH [of ?m'] show ?thesis by (simp add: c checks_Cons del: checks.simps(2))
  qed
qed

lemma window_run:
  assumes "m k = Some \<lparr> count = c, windowStart = t0 \<rparr>" and "\<forall>t\<in>set ts. t - t0 < W"
  shows "fst (checks W N (map (\<lambda>t. (t, k)) ts) m) = map (\<lambda>i. c + i < N) [0..<length ts]"
  using assms
proof (induction ts arbitrary: m c)
  case Nil
  then show ?case by simp
next
  case (Cons t ts)
  let ?m' = "snd (rateLimiter_check W N t k m)"
  from Cons.prems have inside: "\<not> t - t0 \<ge> W" and rest: "\<forall>t\<in>set ts. t - t0 < W" by auto
  have unfold: "fst (checks W N (map (\<lambda>t. (t, k)) (t # ts)) m)
      = fst (rateLimiter_check W N t k m) # fst (checks W N (map (\<lambda>t. (t, k)) ts) ?m')"
    by (simp add: checks_Cons del: checks.simps(2))
  have shift: "map (\<lambda>i. c + i < N) [0..<length (t # ts)]
             = (c < N) # map (\<lambda>i. c + Suc i < N) [0..<length ts]"
    by (simp add: map_upt_Suc del: upt_Suc)
  show ?case
  proof (cases "c < N")
    case True
    with Cons.prems(1) inside have b: "fst (rateLimiter_check W N t k m) = True"
      and m': "?m' k = Some \<lparr> count = Suc c, windowStart = t0 \<rparr>"
      by (simp_all add: rateLimiter_check_def)
    from m' rest have "fst (checks W N (map (\<lambda>t. (t, k)) ts) ?m')
        = map (\<lambda>i. Suc c + i < N) [0..<length ts]"
      by (rule Cons.IH)
    then have "fst (checks W N (map (\<lambda>t. (t, k)) (t # ts)) m)
        = True # map (\<lambda>i. c + Suc i < N) [0..<length ts]"
      by (simp only: unfold b add_Suc add_Suc_right)
    also have "\<dots> = map (\<lambda>i. c + i < N) [0..<length (t # ts)]"
      using True by (simp only: shift)
    finally show ?thesis .
  next
    case False
    with Cons.prems(1) inside have b: "fst (rateLimiter_check W N t k m) = False"
      and m': "?m' k = Some \<lparr> count = c, windowStart = t0 \<rparr>"
      by (simp_all add: rateLimiter_check_def)
    from m' rest have "fst (checks W N (map (\<lambda>t. (t, k)) ts) ?m')
        = map (\<lambda>i. c + i < N) [0..<length ts]"
      by (rule Cons.IH)
    then have "fst (checks W N (map (\<lambda>t. (t, k)) (t # ts)) m)
        = False # map (\<lambda>i. c + i < N) [0..<length ts]"
      by (simp only: unfold b)
    also have "map (\<lambda>i. c + i < N) [0..<length ts] = map (\<lambda>i. c + Suc i < N) [0..<length ts]"
      using False by simp
    also have "False # map (\<lambda>i. c + Suc i < N) [0..<length ts]
        = map (\<lambda>i. c + i < N) [0..<length (t # ts)]"
      using False by (simp only: shift)
    finally show ?thesis .
  qed
qed

lemma window_opens:
  assumes "m k = None \<or> (\<exists>w. m k = Some w \<and> W \<le> t0 - windowStart w)"
  shows "rateLimiter_check W N t0 k m = (True, m(k \<mapsto> \<lparr> count = 1, windowStart = t0 \<rparr>))"
  using assms by (auto simp add: rateLimiter_check_def)

lemma fresh_window_run:
  assumes "0 < N"
    and "m k = None \<or> (\<exists>w. m k = Some w \<and> W \<le> t0 - windowStart w)"
    and "\<forall>t\<in>set ts. t - t0 < W"
  shows "fst (checks W N (map (\<lambda>t. (t, k)) (t0 # ts)) m) = map (\<lambda>i. i < N) [0..<Suc (length ts)]"
proof -
  let ?m' = "m(k \<mapsto> \<lparr> count = 1, windowStart = t0 \<rparr>)"
  have first: "rateLimiter_check W N t0 k m = (True, ?m')"
    using assms(2) by (rule window_opens)
  have "?m' k = Some \<lparr> count = 1, windowStart = t0 \<rparr>" by simp
  then have "fst (checks W N (map (\<lambda>t. (t, k)) ts) ?m') = map (\<lambda>i. 1 + i < N) [0..<length ts]"
    using assms(3) by (rule window_run)
  then have "fst (checks W N (map (\<lambda>t. (t, k)) (t0 # ts)) m)
      = True # map (\<lambda>i. 1 + i < N) [0..<length ts]"
    by (simp add: checks_Cons first del: checks.simps(2))
  also have "\<dots> = map (\<lambda>i. i < N) [0..<Suc (length ts)]"
    using assms(1) by (simp add: map_upt_Suc del: upt_Suc)
  finally show ?thesis .
qed

text \<open>
  Claim C1. With a cap \<open>N\<close> of at least one and a window \<open>W\<close>: when a key has no window,
  or its window has elapsed at the time \<open>t0\<close> of a call, then of this call and the
  following calls for the key at times less than \<open>W\<close> after \<open>t0\<close>, exactly the first \<open>N\<close>
  are admitted; the call number \<open>N + 1\<close> and all later ones are denied. A call at \<open>W\<close> or
  more after the window's start is admitted and starts a new window in which it counts
  as the first call. A call for one key leaves the window of every other key as it is and
  does not change the answer to a later call for it; in any run of calls, the answers to
  the calls of one key are the answers that its calls alone would get.
\<close>

theorem rateLimiter_fixed_window:
  "(0 < N \<and> (m k = None \<or> (\<exists>w. m k = Some w \<and> W \<le> t0 - windowStart w))
      \<and> (\<forall>t\<in>set ts. t - t0 < W)
    \<longrightarrow> fst (checks W N (map (\<lambda>t. (t, k)) (t0 # ts)) m) = map (\<lambda>i. i < N) [0..<Suc (length ts)])
 \<and> (m k = Some w \<and> W \<le> now - windowStart w
    \<longrightarrow> rateLimiter_check W N now k m = (True, m(k \<mapsto> \<lparr> count = 1, windowStart = now \<rparr>)))
 \<and> (k' \<noteq> k
    \<longrightarrow> snd (rateLimiter_check W N now k' m) k = m k
      \<and> fst (rateLimiter_check W N t k (snd (rateLimiter_check W N now k' m)))
          = fst (rateLimiter_check W N t k m))
 \<and> map snd (filter (\<lambda>cb. snd (fst cb) = k) (zip calls (fst (checks W N calls m))))
     = fst (checks W N (filter (\<lambda>c. snd c = k) calls) m)"
proof -
  have a: "0 < N \<and> (m k = None \<or> (\<exists>w. m k = Some w \<and> W \<le> t0 - windowStart w))
      \<and> (\<forall>t\<in>set ts. t - t0 < W)
    \<longrightarrow> fst (checks W N (map (\<lambda>t. (t, k)) (t0 # ts)) m) = map (\<lambda>i. i < N) [0..<Suc (length ts)]"
    using fresh_window_run [of N m k W t0 ts] by blast
  have b: "m k = Some w \<and> W \<le> now - windowStart w
    \<longrightarrow> rateLimiter_check W N now k m = (True, m(k \<mapsto> \<lparr> count = 1, windowStart = now \<rparr>))"
    using window_opens [of m k W now N] by blast
  have c: "k' \<noteq> k
    \<longrightarrow> snd (rateLimiter_check W N now k' m) k = m k
      \<and> fst (rateLimiter_check W N t k (snd (rateLimiter_check W N now k' m)))
          = fst (rateLimiter_check W N t k m)"
    using check_other_key [of k k' W N now m]
      check_depends_on_key [of "snd (rateLimiter_check W N now k' m)" k m W N t] by simp
  from a b c checks_project [of k calls W N m] show ?thesis by blast
qed

theorem rateLimiter_fixed_window_witness:
  "fst (checks 10000 2 [(0, js ''a''), (1, js ''a''), (9999, js ''a'')] Map.empty) = [True, True, False]
 \<and> fst (rateLimiter_check 10000 2 10000 (js ''a'')
          [js ''a'' \<mapsto> \<lparr> count = 2, windowStart = 0 \<rparr>]) = True
 \<and> fst (rateLimiter_check 10000 2 5 (js ''b'')
          (snd (rateLimiter_check 10000 2 4 (js ''a'') [js ''b'' \<mapsto> \<lparr> count = 1, windowStart = 0 \<rparr>])))
     = fst (rateLimiter_check 10000 2 5 (js ''b'') [js ''b'' \<mapsto> \<lparr> count = 1, windowStart = 0 \<rparr>])
 \<and> fst (checks 10000 1 [(0, js ''a''), (1, js ''b''), (2, js ''a'')] Map.empty) = [True, True, False]
 \<and> fst (checks 10000 1 [(0, js ''a''), (2, js ''a'')] Map.empty) = [True, False]"
proof -
  let ?a = "js ''a''" and ?b = "js ''b''"
  have ab: "?a \<noteq> ?b" by (simp add: js_def)
  have up: "map (\<lambda>i. i < (2::nat)) [0..<Suc (length [1::int, 9999])] = [True, True, False]"
    by (simp add: upt_rec)
  have p1: "fst (checks 10000 2 [(0, ?a), (1, ?a), (9999, ?a)] Map.empty) = [True, True, False]"
    using rateLimiter_fixed_window [where N = 2 and m = Map.empty and k = ?a and W = 10000 and ?t0.0 = 0
        and ts = "[1, 9999]" and k' = ?a and calls = "[]"] up
    by simp
  have p2: "fst (rateLimiter_check 10000 2 10000 ?a [?a \<mapsto> \<lparr> count = 2, windowStart = 0 \<rparr>]) = True"
    using rateLimiter_fixed_window [where N = 2 and m = "[?a \<mapsto> \<lparr> count = 2, windowStart = 0 \<rparr>]"
        and k = ?a and W = 10000 and w = "\<lparr> count = 2, windowStart = 0 \<rparr>" and now = 10000
        and ts = "[]" and k' = ?a and calls = "[]"]
    by simp
  have p3: "fst (rateLimiter_check 10000 2 5 ?b
          (snd (rateLimiter_check 10000 2 4 ?a [?b \<mapsto> \<lparr> count = 1, windowStart = 0 \<rparr>])))
     = fst (rateLimiter_check 10000 2 5 ?b [?b \<mapsto> \<lparr> count = 1, windowStart = 0 \<rparr>])"
    using rateLimiter_fixed_window [where N = 2 and m = "[?b \<mapsto> \<lparr> count = 1, windowStart = 0 \<rparr>]"
        and k = ?b and W = 10000 and now = 4 and k' = ?a and t = 5 and ts = "[]" and calls = "[]"] ab
    by simp
  have run: "fst (checks 10000 1 [(0, ?a), (1, ?b), (2, ?a)] Map.empty) = [True, True, False]"
    using ab by (simp add: rateLimiter_check_def)
  have p4: "fst (checks 10000 1 [(0, ?a), (2, ?a)] Map.empty) = [True, False]"
    using rateLimiter_fixed_window [where N = 1 and m = Map.empty and k = ?a and W = 10000 and ts = "[]"
        and k' = ?a and calls = "[(0, ?a), (1, ?b), (2, ?a)]"] ab run
    by simp
  from p1 p2 p3 run p4 show ?thesis by blast
qed

section \<open>Posting a message\<close>

lemma ensureIdentity_effects:
  "snd (ensureIdentity w request) = [] \<or> (\<exists>n v opts. snd (ensureIdentity w request) = [SetCookie n v opts])"
  by (auto simp add: ensureIdentity_def mintIdentity_def Let_def split: option.splits)

lemma idEffects_no_emit: "filter isEmit (snd (ensureIdentity w request)) = []"
  using ensureIdentity_effects [of w request] by auto

lemma idEffects_no_write: "filter isStoreWrite (snd (ensureIdentity w request)) = []"
  using ensureIdentity_effects [of w request] by auto

lemma idEffects_no_check: "filter isRateLimiterCheck (snd (ensureIdentity w request)) = []"
  using ensureIdentity_effects [of w request] by auto

lemma post_text_rejected:
  assumes "textResult request = Rejected m"
  shows "postMessages check w request st =
           (\<lparr> statusCode = 400, sent = ErrorBody (js ''validation_error'') m \<rparr>,
            snd (ensureIdentity w request), st)"
  using assms by (simp add: postMessages_def split_beta)

lemma post_name_rejected:
  assumes "textResult request = Accepted t"
    and "displayNameResult request (fst (ensureIdentity w request)) = Rejected m"
  shows "postMessages check w request st =
           (\<lparr> statusCode = 400, sent = ErrorBody (js ''validation_error'') m \<rparr>,
            snd (ensureIdentity w request), st)"
  using assms by (simp add: postMessages_def split_beta)

lemma post_denied:
  assumes "textResult request = Accepted t"
    and "displayNameResult request (fst (ensureIdentity w request)) = Accepted d"
    and "\<not> fst (check (getClientKey (clientIp request) (fst (ensureIdentity w request))) (limiter st))"
  shows "postMessages check w request st =
           (\<lparr> statusCode = 429,
              sent = ErrorBody (js ''rate_limit_exceeded'') (js ''Too many messages, slow down.'') \<rparr>,
            snd (ensureIdentity w request)
              @ [RateLimiterCheck (getClientKey (clientIp request) (fst (ensureIdentity w request))) False],
            st\<lparr> limiter :=
                  snd (check (getClientKey (clientIp request) (fst (ensureIdentity w request))) (limiter st)) \<rparr>)"
  using assms by (simp add: postMessages_def split_beta Let_def)

lemma post_append_failed:
  assumes "textResult request = Accepted t"
    and "displayNameResult request (fst (ensureIdentity w request)) = Accepted d"
    and "fst (check (getClientKey (clientIp request) (fst (ensureIdentity w request))) (limiter st))"
    and "prismaCreate w = Throws e"
  shows "postMessages check w request st =
           (\<lparr> statusCode = 500,
              sent = ErrorBody (js ''server_error'') (js ''Could not persist message'') \<rparr>,
            snd (ensureIdentity w request)
              @ [RateLimiterCheck (getClientKey (clientIp request) (fst (ensureIdentity w request))) True,
                 MessageCreateFailed e, LogError e (js ''Could not create message'')],
            st\<lparr> limiter :=
                  snd (check (getClientKey (clientIp request) (fst (ensureIdentity w request))) (limiter st)) \<rparr>)"
  using assms by (simp add: postMessages_def split_beta Let_def)

lemma post_created:
  assumes "textResult request = Accepted t"
    and "displayNameResult request (fst (ensureIdentity w request)) = Accepted d"
    and "fst (check (getClientKey (clientIp request) (fst (ensureIdentity w request))) (limiter st))"
    and "prismaCreate w = Returns now"
  shows "postMessages check w request st =
           (\<lparr> statusCode = 201,
              sent = MessageBody (normalizeMessage
                \<lparr> row_id = randomUUID w, row_text = t, row_username = fst (ensureIdentity w request),
                  row_displayName = Some d, row_createdAt = now \<rparr>) \<rparr>,
            snd (ensureIdentity w request)
              @ [RateLimiterCheck (getClientKey (clientIp request) (fst (ensureIdentity w request))) True,
                 MessageCreate
                   \<lparr> row_id = randomUUID w, row_text = t, row_username = fst (ensureIdentity w request),
                     row_displayName = Some d, row_createdAt = now \<rparr>,
                 Emit (js ''messages:new'') (normalizeMessage
                   \<lparr> row_id = randomUUID w, row_text = t, row_username = fst (ensureIdentity w request),
                     row_displayName = Some d, row_createdAt = now \<rparr>)],
            st\<lparr> limiter :=
                  snd (check (getClientKey (clientIp request) (fst (ensureIdentity w request))) (limiter st)),
                messages := messages st @
                  [\<lparr> row_id = randomUUID w, row_text = t, row_username = fst (ensureIdentity w request),
                     row_displayName = Some d, row_createdAt = now \<rparr>] \<rparr>)"
  using assms by (simp add: postMessages_def split_beta Let_def)

lemma post_cases:
  obtains (text_rejected) m where "textResult request = Rejected m"
  | (name_rejected) t m where "textResult request = Accepted t"
      and "displayNameResult request (fst (ensureIdentity w request)) = Rejected m"
  | (denied) t d where "textResult request = Accepted t"
      and "displayNameResult request (fst (ensureIdentity w request)) = Accepted d"
      and "\<not> fst (check (getClientKey (clientIp request) (fst (ensureIdentity w request))) (limiter st))"
  | (append_failed) t d e where "textResult request = Accepted t"
      and "displayNameResult request (fst (ensureIdentity w request)) = Accepted d"
      and "fst (check (getClientKey (clientIp request) (fst (ensureIdentity w request))) (limiter st))"
      and "prismaCreate w = Throws e"
  | (created) t d now where "textResult request = Accepted t"
      and "displayNameResult request (fst (ensureIdentity w request)) = Accepted d"
      and "fst (check (getClientKey (clientIp request) (fst (ensureIdentity w request))) (limiter st))"
      and "prismaCreate w = Returns now"
proof (cases "textResult request")
  case (Rejected m)
  then show ?thesis by (rule text_rejected)
next
  case t: (Accepted t)
  show ?thesis
  proof (cases "displayNameResult request (fst (ensureIdentity w request))")
    case (Rejected m)
    with t show ?thesis by (rule name_rejected)
  next
    case d: (Accepted d)
    show ?thesis
    proof (cases "fst (check (getClientKey (clientIp request) (fst (ensureIdentity w request))) (limiter st))")
      case False
      with t d show ?thesis by (rule denied)
    next
      case True
      show ?thesis
      proof (cases "prismaCreate w")
        case (Throws e)
        with t d True show ?thesis by (rule append_failed)
      next
        case (Returns now)
        with t d True show ?thesis by (rule created)
      qed
    qed
  qed
qed



lemma ok_iff_Accepted: "ok v \<longleftrightarrow> (\<exists>t. v = Accepted t)"
  by (cases v) simp_all

lemma ex_username:
  "cookies r = None \<Longrightarrow> mathRandom w = exampleRandom
     \<Longrightarrow> fst (ensureIdentity w r) = js ''Swift-Otter-0482''"
  by (simp add: ensureIdentity_def mintIdentity_def Let_def exampleUsername)

lemma ex_cookies: "cookies exampleRequest = None" "cookies exampleBlankRequest = None"
  by (simp_all add: exampleRequest_def exampleBlankRequest_def)

lemma ex_random: "mathRandom exampleWorld = exampleRandom" "mathRandom exampleDownWorld = exampleRandom"
  by (simp_all add: exampleWorld_def exampleDownWorld_def)

lemma ex_text: "textResult exampleRequest = Accepted (js ''hello'')"
  by (simp add: textResult_def exampleRequest_def trim_def trimStart_def trimEnd_def
      isWhiteSpace_def MESSAGE_MAX_LENGTH_def js_def)

lemma ex_blank: "textResult exampleBlankRequest = Rejected (js ''text cannot be empty'')"
  by (simp add: textResult_def exampleBlankRequest_def trim_def trimStart_def trimEnd_def
      isWhiteSpace_def js_def)

lemma ex_name: "displayNameResult exampleRequest u = Accepted u"
  by (simp add: displayNameResult_def exampleRequest_def js_def)

lemma ex_key: "getClientKey (clientIp exampleRequest) (js ''Swift-Otter-0482'') = exampleKey"
  by (simp add: getClientKey_def clientIp_def exampleRequest_def exampleKey_def js_def)

lemma ex_admitted: "fst (exampleCheck exampleKey (limiter exampleServer))"
  by (simp add: exampleCheck_def exampleServer_def rateLimiter_check_def)

lemma ex_denied: "\<not> fst (exampleCheck exampleKey (limiter exampleFullServer))"
  by (simp add: exampleCheck_def exampleFullServer_def rateLimiter_check_def)

lemma ex_create: "prismaCreate exampleWorld = Returns 1700000000000"
  "prismaCreate exampleDownWorld = Throws (js ''connection refused'')"
  by (simp_all add: exampleWorld_def exampleDownWorld_def)

lemma ex_user: "fst (ensureIdentity exampleWorld exampleRequest) = js ''Swift-Otter-0482''"
  "fst (ensureIdentity exampleDownWorld exampleRequest) = js ''Swift-Otter-0482''"
  by (simp_all add: ex_username ex_cookies ex_random)


text \<open>
  Claim C3. A request to \<open>POST /messages\<close> passes identity resolution, then the
  validation of text and display name, then the rate limiter, then the store's
  \<open>create\<close>, then the publication, and leaves at the first stage that fails. After a
  validation failure the actions are those of identity resolution alone and the state is
  unchanged: the rate limiter was not consulted and nothing was written. After a denial
  the message table is unchanged and the only further action is the check itself: no
  write, no publication. The actions of identity resolution contain no check, no write
  and no publication.
\<close>

theorem postMessages_stage_order:
  assumes "postMessages check w request st = (reply, effects, st')"
    and "username = fst (ensureIdentity w request)"
    and "idEffects = snd (ensureIdentity w request)"
    and "key = getClientKey (clientIp request) username"
  shows
  "(\<not> ok (textResult request) \<or> \<not> ok (displayNameResult request username)
      \<longrightarrow> statusCode reply = 400 \<and> effects = idEffects \<and> st' = st)
 \<and> (ok (textResult request) \<and> ok (displayNameResult request username) \<and> \<not> fst (check key (limiter st))
      \<longrightarrow> statusCode reply = 429 \<and> effects = idEffects @ [RateLimiterCheck key False]
        \<and> limiter st' = snd (check key (limiter st)) \<and> messages st' = messages st)
 \<and> (ok (textResult request) \<and> ok (displayNameResult request username) \<and> fst (check key (limiter st))
      \<longrightarrow> limiter st' = snd (check key (limiter st))
        \<and> ((\<exists>e. prismaCreate w = Throws e \<and> statusCode reply = 500 \<and> messages st' = messages st
               \<and> effects = idEffects @ [RateLimiterCheck key True, MessageCreateFailed e,
                                         LogError e (js ''Could not create message'')])
          \<or> (\<exists>row. statusCode reply = 201 \<and> messages st' = messages st @ [row]
               \<and> effects = idEffects @ [RateLimiterCheck key True, MessageCreate row,
                                         Emit (js ''messages:new'') (normalizeMessage row)])))
 \<and> filter isRateLimiterCheck idEffects = [] \<and> filter isStoreWrite idEffects = []
 \<and> filter isEmit idEffects = []"
proof -
  have id: "filter isRateLimiterCheck idEffects = [] \<and> filter isStoreWrite idEffects = []
      \<and> filter isEmit idEffects = []"
    using assms(3) idEffects_no_check idEffects_no_write idEffects_no_emit by simp
  show ?thesis
  proof (cases rule: post_cases [where request = request and w = w and check = check and st = st])
    case (text_rejected m)
    from assms(1) post_text_rejected [where check = check and w = w and st = st, OF text_rejected]
    have r: "reply = \<lparr> statusCode = 400, sent = ErrorBody (js ''validation_error'') m \<rparr>"
      "effects = snd (ensureIdentity w request)" "st' = st" by simp_all
    from text_rejected id show ?thesis unfolding r assms(2,3,4) by simp
  next
    case (name_rejected t m)
    from assms(1) post_name_rejected [where check = check and st = st, OF name_rejected]
    have r: "reply = \<lparr> statusCode = 400, sent = ErrorBody (js ''validation_error'') m \<rparr>"
      "effects = snd (ensureIdentity w request)" "st' = st" by simp_all
    from name_rejected id show ?thesis unfolding r assms(2,3,4) by simp
  next
    case (denied t d)
    from assms(1) post_denied [where check = check and w = w and request = request and st = st, OF denied]
    have r: "statusCode reply = 429"
      "effects = snd (ensureIdentity w request)
         @ [RateLimiterCheck (getClientKey (clientIp request) (fst (ensureIdentity w request))) False]"
      "st' = st\<lparr> limiter :=
          snd (check (getClientKey (clientIp request) (fst (ensureIdentity w request))) (limiter st)) \<rparr>"
      by auto
    from denied id show ?thesis unfolding r assms(2,3,4) by simp
  next
    case (append_failed t d e)
    from assms(1)
      post_append_failed [where check = check and w = w and request = request and st = st, OF append_failed]
    have r: "statusCode reply = 500"
      "effects = snd (ensureIdentity w request)
         @ [RateLimiterCheck (getClientKey (clientIp request) (fst (ensureIdentity w request))) True,
            MessageCreateFailed e, LogError e (js ''Could not create message'')]"
      "st' = st\<lparr> limiter :=
          snd (check (getClientKey (clientIp request) (fst (ensureIdentity w request))) (limiter st)) \<rparr>"
      by auto
    from append_failed id show ?thesis unfolding r assms(2,3,4) by simp
  next
    case (created t d now)
    let ?row = "\<lparr> row_id = randomUUID w, row_text = t, row_username = fst (ensureIdentity w request),
                   row_displayName = Some d, row_createdAt = now \<rparr>"
    from assms(1)
      post_created [where check = check and w = w and request = request and st = st, OF created]
    have r: "statusCode reply = 201"
      "effects = snd (ensureIdentity w request)
         @ [RateLimiterCheck (getClientKey (clientIp request) (fst (ensureIdentity w request))) True,
            MessageCreate ?row, Emit (js ''messages:new'') (normalizeMessage ?row)]"
      "st' = st\<lparr> limiter :=
          snd (check (getClientKey (clientIp request) (fst (ensureIdentity w request))) (limiter st)),
          messages := messages st @ [?row] \<rparr>"
      by auto
    from created id show ?thesis unfolding r assms(2,3,4) by simp
  qed
qed

theorem postMessages_stage_order_witness:
  "statusCode (fst (postMessages exampleCheck exampleWorld exampleBlankRequest exampleServer)) = 400
 \<and> fst (snd (postMessages exampleCheck exampleWorld exampleBlankRequest exampleServer))
     = snd (ensureIdentity exampleWorld exampleBlankRequest)
 \<and> snd (snd (postMessages exampleCheck exampleWorld exampleBlankRequest exampleServer)) = exampleServer
 \<and> statusCode (fst (postMessages exampleCheck exampleWorld exampleRequest exampleFullServer)) = 429
 \<and> fst (snd (postMessages exampleCheck exampleWorld exampleRequest exampleFullServer))
     = snd (ensureIdentity exampleWorld exampleRequest) @ [RateLimiterCheck exampleKey False]
 \<and> messages (snd (snd (postMessages exampleCheck exampleWorld exampleRequest exampleFullServer))) = []
 \<and> statusCode (fst (postMessages exampleCheck exampleWorld exampleRequest exampleServer)) = 201
 \<and> length (messages (snd (snd (postMessages exampleCheck exampleWorld exampleRequest exampleServer)))) = 1"
proof -
  have u: "fst (ensureIdentity exampleWorld exampleRequest) = js ''Swift-Otter-0482''"
    by (simp add: ex_username ex_cookies ex_random)
  obtain r1 e1 s1 where
    p1: "postMessages exampleCheck exampleWorld exampleBlankRequest exampleServer = (r1, e1, s1)"
    by (rule prod_cases3)
  have "\<not> ok (textResult exampleBlankRequest)" by (simp add: ex_blank)
  with postMessages_stage_order [OF p1 refl refl refl]
  have c1: "statusCode r1 = 400 \<and> e1 = snd (ensureIdentity exampleWorld exampleBlankRequest)
      \<and> s1 = exampleServer" by blast
  obtain r2 e2 s2 where
    p2: "postMessages exampleCheck exampleWorld exampleRequest exampleFullServer = (r2, e2, s2)"
    by (rule prod_cases3)
  have h2: "ok (textResult exampleRequest)"
    "ok (displayNameResult exampleRequest (fst (ensureIdentity exampleWorld exampleRequest)))"
    "\<not> fst (exampleCheck (getClientKey (clientIp exampleRequest)
        (fst (ensureIdentity exampleWorld exampleRequest))) (limiter exampleFullServer))"
    by (simp_all add: ex_text ex_name u ex_key ex_denied)
  with postMessages_stage_order [OF p2 refl refl refl]
  have "statusCode r2 = 429
      \<and> e2 = snd (ensureIdentity exampleWorld exampleRequest)
          @ [RateLimiterCheck (getClientKey (clientIp exampleRequest)
               (fst (ensureIdentity exampleWorld exampleRequest))) False]
      \<and> messages s2 = messages exampleFullServer" by blast
  then have c2: "statusCode r2 = 429
      \<and> e2 = snd (ensureIdentity exampleWorld exampleRequest) @ [RateLimiterCheck exampleKey False]
      \<and> messages s2 = []"
    by (simp add: u ex_key exampleFullServer_def)
  obtain r3 e3 s3 where
    p3: "postMessages exampleCheck exampleWorld exampleRequest exampleServer = (r3, e3, s3)"
    by (rule prod_cases3)
  have h3: "ok (textResult exampleRequest)"
    "ok (displayNameResult exampleRequest (fst (ensureIdentity exampleWorld exampleRequest)))"
    "fst (exampleCheck (getClientKey (clientIp exampleRequest)
        (fst (ensureIdentity exampleWorld exampleRequest))) (limiter exampleServer))"
    by (simp_all add: ex_text ex_name u ex_key ex_admitted)
  with postMessages_stage_order [OF p3 refl refl refl]
  have "(\<exists>e. prismaCreate exampleWorld = Throws e \<and> statusCode r3 = 500
            \<and> messages s3 = messages exampleServer
            \<and> e3 = snd (ensureIdentity exampleWorld exampleRequest)
                @ [RateLimiterCheck (getClientKey (clientIp exampleRequest)
                     (fst (ensureIdentity exampleWorld exampleRequest))) True,
                   MessageCreateFailed e, LogError e (js ''Could not create message'')])
       \<or> (\<exists>row. statusCode r3 = 201 \<and> messages s3 = messages exampleServer @ [row]
            \<and> e3 = snd (ensureIdentity exampleWorld exampleRequest)
                @ [RateLimiterCheck (getClientKey (clientIp exampleRequest)
                     (fst (ensureIdentity exampleWorld exampleRequest))) True,
                   MessageCreate row, Emit (js ''messages:new'') (normalizeMessage row)])"
    by blast
  then have c3: "statusCode r3 = 201 \<and> length (messages s3) = 1"
    by (auto simp add: ex_create exampleServer_def)
  from c1 c2 c3 show ?thesis by (simp add: p1 p2 p3)
qed


text \<open>
  Claim C4. A request to \<open>POST /messages\<close> publishes a \<open>messages:new\<close> event exactly
  when the store's \<open>create\<close> succeeded. When \<open>create\<close> fails, nothing is published, the
  table is unchanged and the answer is the server error 500. When it succeeds, exactly
  one event is published, and its payload is the body of the 201 answer.
\<close>

theorem postMessages_publish_iff_append:
  assumes "postMessages check w request st = (reply, effects, st')"
  shows
  "((\<exists>p. Emit (js ''messages:new'') p \<in> set effects) \<longleftrightarrow> (\<exists>row. MessageCreate row \<in> set effects))
 \<and> ((\<exists>row. MessageCreate row \<in> set effects) \<longleftrightarrow> (\<exists>row. messages st' = messages st @ [row]))
 \<and> ((\<exists>e. MessageCreateFailed e \<in> set effects)
      \<longrightarrow> filter isEmit effects = [] \<and> messages st' = messages st
        \<and> reply = \<lparr> statusCode = 500,
                     sent = ErrorBody (js ''server_error'') (js ''Could not persist message'') \<rparr>)
 \<and> ((\<exists>row. MessageCreate row \<in> set effects)
      \<longrightarrow> (\<exists>payload. filter isEmit effects = [Emit (js ''messages:new'') payload]
             \<and> reply = \<lparr> statusCode = 201, sent = MessageBody payload \<rparr>))
 \<and> ((\<forall>row. MessageCreate row \<notin> set effects) \<longrightarrow> filter isEmit effects = [])"
proof -
  let ?id = "snd (ensureIdentity w request)"
  have cookie: "?id = [] \<or> (\<exists>n v opts. ?id = [SetCookie n v opts])"
    by (rule ensureIdentity_effects)
  show ?thesis
  proof (cases rule: post_cases [where request = request and w = w and check = check and st = st])
    case (text_rejected m)
    from assms post_text_rejected [where check = check and w = w and st = st, OF text_rejected]
    have "effects = ?id" "st' = st" by simp_all
    with cookie show ?thesis by auto
  next
    case (name_rejected t m)
    from assms post_name_rejected [where check = check and st = st, OF name_rejected]
    have "effects = ?id" "st' = st" by simp_all
    with cookie show ?thesis by auto
  next
    case (denied t d)
    from assms post_denied [where check = check and w = w and request = request and st = st, OF denied]
    have "\<exists>k. effects = ?id @ [RateLimiterCheck k False]" "messages st' = messages st" by auto
    with cookie show ?thesis by auto
  next
    case (append_failed t d e)
    from assms post_append_failed [where check = check and w = w and request = request and st = st, OF append_failed]
    have "\<exists>k. effects = ?id @ [RateLimiterCheck k True, MessageCreateFailed e,
                               LogError e (js ''Could not create message'')]"
      "messages st' = messages st"
      "reply = \<lparr> statusCode = 500,
                 sent = ErrorBody (js ''server_error'') (js ''Could not persist message'') \<rparr>"
      by auto
    with cookie show ?thesis by auto
  next
    case (created t d now)
    from assms post_created [where check = check and w = w and request = request and st = st, OF created]
    have "\<exists>k row. effects = ?id @ [RateLimiterCheck k True, MessageCreate row,
                                   Emit (js ''messages:new'') (normalizeMessage row)]
            \<and> messages st' = messages st @ [row]
            \<and> reply = \<lparr> statusCode = 201, sent = MessageBody (normalizeMessage row) \<rparr>"
      by auto
    with cookie show ?thesis by auto
  qed
qed

theorem postMessages_publish_iff_append_witness:
  "(\<exists>payload.
      filter isEmit (fst (snd (postMessages exampleCheck exampleWorld exampleRequest exampleServer)))
        = [Emit (js ''messages:new'') payload]
    \<and> fst (postMessages exampleCheck exampleWorld exampleRequest exampleServer)
        = \<lparr> statusCode = 201, sent = MessageBody payload \<rparr>)
 \<and> filter isEmit (fst (snd (postMessages exampleCheck exampleDownWorld exampleRequest exampleServer))) = []
 \<and> statusCode (fst (postMessages exampleCheck exampleDownWorld exampleRequest exampleServer)) = 500
 \<and> messages (snd (snd (postMessages exampleCheck exampleDownWorld exampleRequest exampleServer))) = []
 \<and> filter isEmit (fst (snd (postMessages exampleCheck exampleWorld exampleBlankRequest exampleServer))) = []"
proof -
  obtain r1 e1 s1 where
    p1: "postMessages exampleCheck exampleWorld exampleRequest exampleServer = (r1, e1, s1)"
    by (rule prod_cases3)
  have "fst (exampleCheck (getClientKey (clientIp exampleRequest)
        (fst (ensureIdentity exampleWorld exampleRequest))) (limiter exampleServer))"
    by (simp add: ex_user ex_key ex_admitted)
  from post_created [where check = exampleCheck and w = exampleWorld and request = exampleRequest
      and st = exampleServer, OF ex_text ex_name this ex_create(1)] p1
  have "\<exists>row. MessageCreate row \<in> set e1" by auto
  with postMessages_publish_iff_append [OF p1]
  have c1: "\<exists>payload. filter isEmit e1 = [Emit (js ''messages:new'') payload]
      \<and> r1 = \<lparr> statusCode = 201, sent = MessageBody payload \<rparr>" by blast
  obtain r2 e2 s2 where
    p2: "postMessages exampleCheck exampleDownWorld exampleRequest exampleServer = (r2, e2, s2)"
    by (rule prod_cases3)
  have "fst (exampleCheck (getClientKey (clientIp exampleRequest)
        (fst (ensureIdentity exampleDownWorld exampleRequest))) (limiter exampleServer))"
    by (simp add: ex_user ex_key ex_admitted)
  from post_append_failed [where check = exampleCheck and w = exampleDownWorld
      and request = exampleRequest and st = exampleServer, OF ex_text ex_name this ex_create(2)] p2
  have "\<exists>e. MessageCreateFailed e \<in> set e2" by auto
  with postMessages_publish_iff_append [OF p2]
  have "filter isEmit e2 = [] \<and> messages s2 = messages exampleServer
      \<and> r2 = \<lparr> statusCode = 500,
                 sent = ErrorBody (js ''server_error'') (js ''Could not persist message'') \<rparr>"
    by blast
  then have c2: "filter isEmit e2 = [] \<and> statusCode r2 = 500 \<and> messages s2 = []"
    by (simp add: exampleServer_def)
  obtain r3 e3 s3 where
    p3: "postMessages exampleCheck exampleWorld exampleBlankRequest exampleServer = (r3, e3, s3)"
    by (rule prod_cases3)
  from post_text_rejected [where check = exampleCheck and w = exampleWorld and st = exampleServer,
      OF ex_blank] p3 ensureIdentity_effects [of exampleWorld exampleBlankRequest]
  have "\<forall>row. MessageCreate row \<notin> set e3" by auto
  with postMessages_publish_iff_append [OF p3]
  have c3: "filter isEmit e3 = []" by blast
  from c1 c2 c3 show ?thesis by (simp add: p1 p2 p3)
qed











section \<open>Reading the history\<close>

lemma historyLimit_range: "1 \<le> historyLimit q \<and> historyLimit q \<le> 200"
  by (simp add: historyLimit_def HISTORY_MAX_LIMIT_def Let_def split: jsnumber.splits)

lemma parseInt10_default: "parseInt10 (intToString HISTORY_MAX_LIMIT) = Finite 200"
  by (simp add: parseInt10_def intToString_def HISTORY_MAX_LIMIT_def natDigits.simps digitChar_def
      trimStart_def isWhiteSpace_def isDigit_def digitValue_def Let_def)

lemma historyLimit_absent: "historyLimit None = 200"
  using parseInt10_default by (simp add: historyLimit_def HISTORY_MAX_LIMIT_def)

lemma historyLimit_finite: "parseInt10 l = Finite n \<Longrightarrow> historyLimit (Some l) = min 200 (max 1 n)"
  by (simp add: historyLimit_def HISTORY_MAX_LIMIT_def)

lemma historyLimit_invalid: "\<not> isFinite (parseInt10 l) \<Longrightarrow> historyLimit (Some l) = 200"
  by (simp add: historyLimit_def HISTORY_MAX_LIMIT_def isFinite_def split: jsnumber.splits)

lemma parseInt10_500: "parseInt10 (js ''500'') = Finite 500"
  by (simp add: parseInt10_def js_def trimStart_def isWhiteSpace_def isDigit_def digitValue_def Let_def)

lemma findMany_length: "length (findMany n table) = min n (length table)"
  by (simp add: findMany_def min.commute)

lemma findMany_falling: "sorted (map row_createdAt (rev (findMany n table)))"
proof -
  let ?S = "sort_key (\<lambda>r. - row_createdAt r) table"
  have "sorted (map (\<lambda>r. - row_createdAt r) ?S)" by (rule sorted_sort_key)
  then have "sorted_wrt (\<lambda>a b. row_createdAt b \<le> row_createdAt a) ?S"
    by (simp add: sorted_map)
  then have "sorted_wrt (\<lambda>a b. row_createdAt b \<le> row_createdAt a) (take n ?S)"
    by (rule sorted_wrt_take)
  then have "sorted_wrt (\<lambda>a b. row_createdAt a \<le> row_createdAt b) (rev (take n ?S))"
    by (simp add: sorted_wrt_rev)
  then show ?thesis by (simp add: findMany_def sorted_map)
qed

lemma findMany_recent:
  "mset (findMany n table) \<subseteq># mset table
 \<and> (\<forall>old \<in># mset table - mset (findMany n table). \<forall>r \<in> set (findMany n table).
       row_createdAt old \<le> row_createdAt r)"
proof -
  let ?S = "sort_key (\<lambda>r. - row_createdAt r) table"
  have split: "mset table = mset (take n ?S) + mset (drop n ?S)"
    by (metis append_take_drop_id mset_append mset_sort)
  have "sorted (map (\<lambda>r. - row_createdAt r) (take n ?S @ drop n ?S))"
    by simp
  then have "\<forall>r \<in> set (take n ?S). \<forall>old \<in> set (drop n ?S). row_createdAt old \<le> row_createdAt r"
    unfolding map_append sorted_append by auto
  with split show ?thesis by (auto simp add: findMany_def)
qed

text \<open>
  Claim C7. When the store answers, \<open>GET /messages\<close> returns 200 with the rows that
  \<open>findMany\<close> selected, oldest first: as many as the limit allows and the table has, never
  more than 200; in ascending order of \<open>createdAt\<close>; and no row left out is more recent
  than a row returned. The limit is 200 when the parameter is absent or does not parse to
  a finite number, and \<open>min 200 (max 1 N)\<close> when it parses to \<open>N\<close>; for \<open>limit=500\<close> it is
  200.
\<close>

theorem getMessages_history:
  assumes "prismaFindMany w = Returns u"
  shows
  "\<exists>rows.
     getMessages w request st =
       (\<lparr> statusCode = 200, sent = MessagesBody (map normalizeMessage rows) \<rparr>,
        snd (ensureIdentity w request), st)
   \<and> length rows = min (nat (historyLimit (query_limit request))) (length (messages st))
   \<and> length rows \<le> 200
   \<and> sorted (map row_createdAt rows)
   \<and> mset rows \<subseteq># mset (messages st)
   \<and> (\<forall>old \<in># mset (messages st) - mset rows. \<forall>r \<in> set rows. row_createdAt old \<le> row_createdAt r)
   \<and> (query_limit request = None \<longrightarrow> historyLimit (query_limit request) = 200)
   \<and> (\<forall>l n. query_limit request = Some l \<and> parseInt10 l = Finite n
          \<longrightarrow> historyLimit (query_limit request) = min 200 (max 1 n))
   \<and> (\<forall>l. query_limit request = Some l \<and> \<not> isFinite (parseInt10 l)
          \<longrightarrow> historyLimit (query_limit request) = 200)
   \<and> (query_limit request = Some (js ''500'') \<longrightarrow> historyLimit (query_limit request) = 200)"
proof -
  let ?n = "nat (historyLimit (query_limit request))"
  let ?rows = "rev (findMany ?n (messages st))"
  have g: "getMessages w request st =
       (\<lparr> statusCode = 200, sent = MessagesBody (map normalizeMessage ?rows) \<rparr>,
        snd (ensureIdentity w request), st)"
    using assms by (simp add: getMessages_def Let_def)
  have len: "length ?rows = min ?n (length (messages st))"
    by (simp add: findMany_length)
  have "?n \<le> 200" using historyLimit_range [of "query_limit request"] by linarith
  with len have le: "length ?rows \<le> 200" by simp
  have srt: "sorted (map row_createdAt ?rows)" by (rule findMany_falling)
  have rec: "mset ?rows \<subseteq># mset (messages st)
     \<and> (\<forall>old \<in># mset (messages st) - mset ?rows. \<forall>r \<in> set ?rows. row_createdAt old \<le> row_createdAt r)"
    using findMany_recent [of ?n "messages st"] by simp
  have l1: "query_limit request = None \<longrightarrow> historyLimit (query_limit request) = 200"
    by (simp add: historyLimit_absent)
  have l2: "\<forall>l n. query_limit request = Some l \<and> parseInt10 l = Finite n
          \<longrightarrow> historyLimit (query_limit request) = min 200 (max 1 n)"
    by (simp add: historyLimit_finite)
  have l3: "\<forall>l. query_limit request = Some l \<and> \<not> isFinite (parseInt10 l)
          \<longrightarrow> historyLimit (query_limit request) = 200"
    by (simp add: historyLimit_invalid)
  have l4: "query_limit request = Some (js ''500'') \<longrightarrow> historyLimit (query_limit request) = 200"
    using historyLimit_finite [OF parseInt10_500] by simp
  note rec1 = rec [THEN conjunct1] and rec2 = rec [THEN conjunct2]
  show ?thesis
    by (rule exI [of _ ?rows]) (intro conjI g len le srt rec1 rec2 l1 l2 l3 l4)
qed

theorem getMessages_history_witness:
  "(\<exists>rows. sent (fst (getMessages exampleWorld (exampleRequest\<lparr> query_limit := Some (js ''2'') \<rparr>)
                      exampleHistory)) = MessagesBody (map normalizeMessage rows)
      \<and> length rows = 2 \<and> sorted (map row_createdAt rows))
 \<and> sent (fst (getMessages exampleWorld (exampleRequest\<lparr> query_limit := Some (js ''2'') \<rparr>) exampleHistory))
     = MessagesBody (map normalizeMessage [exampleRow (js ''c'') 20, exampleRow (js ''a'') 30])
 \<and> historyLimit (Some (js ''500'')) = 200
 \<and> historyLimit None = 200
 \<and> historyLimit (Some (js ''abc'')) = 200
 \<and> historyLimit (Some (js ''-5'')) = 1"
proof -
  let ?two = "exampleRequest\<lparr> query_limit := Some (js ''2'') \<rparr>"
  have up: "prismaFindMany exampleWorld = Returns ()" by (simp add: exampleWorld_def)
  have two: "parseInt10 (js ''2'') = Finite 2"
    by (simp add: parseInt10_def js_def trimStart_def isWhiteSpace_def isDigit_def digitValue_def Let_def)
  have abc: "\<not> isFinite (parseInt10 (js ''abc''))"
    by (simp add: parseInt10_def js_def trimStart_def isWhiteSpace_def isDigit_def isFinite_def Let_def)
  have neg: "parseInt10 (js ''-5'') = Finite (- 5)"
    by (simp add: parseInt10_def js_def trimStart_def isWhiteSpace_def isDigit_def digitValue_def Let_def)
  have n: "length (messages exampleHistory) = 3" by (simp add: exampleHistory_def)
  from getMessages_history [OF up, of ?two exampleHistory] two n
  have p1: "\<exists>rows. sent (fst (getMessages exampleWorld ?two exampleHistory))
        = MessagesBody (map normalizeMessage rows)
      \<and> length rows = 2 \<and> sorted (map row_createdAt rows)"
    by auto
  have p2: "sent (fst (getMessages exampleWorld ?two exampleHistory))
     = MessagesBody (map normalizeMessage [exampleRow (js ''c'') 20, exampleRow (js ''a'') 30])"
    using up two
    by (simp add: getMessages_def historyLimit_def HISTORY_MAX_LIMIT_def findMany_def
        exampleHistory_def exampleRow_def Let_def)
  from getMessages_history [OF up, of "exampleRequest\<lparr> query_limit := Some (js ''500'') \<rparr>" exampleHistory]
  have p3: "historyLimit (Some (js ''500'')) = 200" by auto
  from getMessages_history [OF up, of "exampleRequest\<lparr> query_limit := None \<rparr>" exampleHistory]
  have p4: "historyLimit None = 200" by auto
  from getMessages_history [OF up, of "exampleRequest\<lparr> query_limit := Some (js ''abc'') \<rparr>" exampleHistory] abc
  have p5: "historyLimit (Some (js ''abc'')) = 200" by auto
  from getMessages_history [OF up, of "exampleRequest\<lparr> query_limit := Some (js ''-5'') \<rparr>" exampleHistory] neg
  have p6: "historyLimit (Some (js ''-5'')) = 1" by auto
  from p1 p2 p3 p4 p5 p6 show ?thesis by blast
qed

end
